theory Spec2Isabelle
  imports Main "HOL-Library.Sublist" "HOL-Library.Char_ord" "HOL-Library.List_Lexorder"
begin

section \<open>Python string and list primitives used by the SKY130 plugin\<close>

text \<open>
  Python strings are modelled as \<open>string\<close> (lists of characters).  The functions below
  follow the behaviour of the built-in methods the plugin calls: \<open>sub in s\<close>,
  \<open>s.startswith(p)\<close>, \<open>s.replace(old, new)\<close>, \<open>s.split(sep)\<close>, \<open>sep.join(xs)\<close>,
  \<open>os.path.join\<close>, \<open>str(Path(s))\<close> and \<open>file.readlines()\<close>.
\<close>

datatype error =
    ValueError string
  | FileNotFoundError string
  | StopIteration
  | IndexError
  | AttributeError
  | TypeError
  | IsADirectoryError
  | FileExistsError

text \<open>\<open>sub in s\<close>: some suffix of \<open>s\<close> starts with \<open>sub\<close>.\<close>

fun is_in :: "string \<Rightarrow> string \<Rightarrow> bool" where
  "is_in sub [] = (sub = [])"
| "is_in sub (c # cs) = (prefix sub (c # cs) \<or> is_in sub cs)"

definition startswith :: "string \<Rightarrow> string \<Rightarrow> bool" where
  "startswith s p = prefix p s"

text \<open>
  \<open>s.replace(old, new)\<close>: every leftmost, non-overlapping occurrence of \<open>old\<close> is
  replaced.  For an empty \<open>old\<close> Python puts \<open>new\<close> before every character and at the end.
\<close>

fun replace_py :: "string \<Rightarrow> string \<Rightarrow> string \<Rightarrow> string" where
  "replace_py old new [] = (if old = [] then new else [])"
| "replace_py old new (c # cs) =
     (if old = [] then new @ c # replace_py old new cs
      else if prefix old (c # cs) then new @ replace_py old new (drop (length old) (c # cs))
      else c # replace_py old new cs)"

text \<open>
  \<open>s.split(sep)\<close> for a non-empty separator (every call of the plugin passes a
  literal one): the pieces between the leftmost, non-overlapping occurrences of \<open>sep\<close>;
  the result always has at least one piece.
\<close>

fun split_py :: "string \<Rightarrow> string \<Rightarrow> string list" where
  "split_py sep [] = [[]]"
| "split_py sep (c # cs) =
     (if sep \<noteq> [] \<and> prefix sep (c # cs)
      then [] # split_py sep (drop (length sep) (c # cs))
      else (case split_py sep cs of
              [] \<Rightarrow> [[c]]
            | p # ps \<Rightarrow> (c # p) # ps))"

fun join_py :: "string \<Rightarrow> string list \<Rightarrow> string" where
  "join_py sep [] = []"
| "join_py sep [x] = x"
| "join_py sep (x # y # ys) = x @ sep @ join_py sep (y # ys)"

text \<open>
  \<open>os.path.join(a, b)\<close> on POSIX: an absolute \<open>b\<close> discards \<open>a\<close>; otherwise the two are
  joined with one slash unless \<open>a\<close> is empty or already ends in a slash.
\<close>

definition path_join :: "string \<Rightarrow> string \<Rightarrow> string" where
  "path_join a b =
     (if startswith b ''/'' then b
      else if a = [] \<or> last a = CHR ''/'' then a @ b
      else a @ ''/'' @ b)"

text \<open>
  \<open>str(Path(s))\<close> on POSIX.  \<open>pathlib\<close> keeps the root (two leading slashes exactly are
  kept as they are, any other number of them is one slash) and the components between
  slashes, without the empty ones and the single dots; a path with no root and no
  component is written as one dot.  \<open>Path(a) / b\<close> is the path of \<open>os.path.join(a, b)\<close>.
\<close>

definition pathlib_str :: "string \<Rightarrow> string" where
  "pathlib_str s =
     (let root = (if startswith s ''//'' \<and> \<not> startswith s ''///'' then ''//''
                  else if startswith s ''/'' then ''/''
                  else []);
          parts = filter (\<lambda>x. x \<noteq> [] \<and> x \<noteq> ''.'')
                    (split_py ''/'' (dropWhile (\<lambda>c. c = CHR ''/'') s))
      in if root = [] \<and> parts = [] then ''.'' else root @ join_py ''/'' parts)"

definition path_div :: "string \<Rightarrow> string \<Rightarrow> string" where
  "path_div a b = pathlib_str (path_join a b)"

text \<open>\<open>xs[i]\<close> for a non-negative index: IndexError out of range.\<close>

definition index_py :: "'a list \<Rightarrow> nat \<Rightarrow> error + 'a" where
  "index_py xs i = (if i < length xs then Inr (xs ! i) else Inl IndexError)"

text \<open>
  A file opened with \<open>open(path, 'r')\<close> is read in text mode with universal newlines: a
  carriage return followed by a line feed, and a carriage return alone, both reach the
  program as one line feed.  (Writing in text mode on POSIX changes nothing.)
\<close>

fun universal_newlines :: "string \<Rightarrow> string" where
  "universal_newlines [] = []"
| "universal_newlines [c] = [if c = CHR 0x0D then CHR ''\<newline>'' else c]"
| "universal_newlines (c # d # cs) =
     (if c = CHR 0x0D \<and> d = CHR ''\<newline>'' then CHR ''\<newline>'' # universal_newlines cs
      else if c = CHR 0x0D then CHR ''\<newline>'' # universal_newlines (d # cs)
      else c # universal_newlines (d # cs))"

text \<open>
  \<open>readlines()\<close>, and the iteration \<open>for line in sf\<close>, on the text read: the text cut
  after every line feed; the last line has no line feed when the text does not end in one.
\<close>

fun readlines :: "string \<Rightarrow> string list" where
  "readlines [] = []"
| "readlines (c # cs) =
     (if c = CHR ''\<newline>'' then [c] # readlines cs
      else (case readlines cs of
              [] \<Rightarrow> [[c]]
            | l # ls \<Rightarrow> (c # l) # ls))"

section \<open>The technology descriptor's library records\<close>

text \<open>
  \<open>Library\<close>, \<open>Corner\<close>, \<open>Supplies\<close> and \<open>Provide\<close> are data classes of the host framework
  whose fields are strings; a field that the plugin does not pass is \<open>None\<close>.
\<close>

record corner =
  nmos :: string
  pmos :: string
  temperature :: string

record supplies =
  VDD :: string
  GND :: string

record provide =
  lib_type :: string
  vt :: "string option"

record library =
  nldm_liberty_file :: "string option"
  verilog_sim :: "string option"
  lef_file :: "string option"
  spice_file :: "string option"
  gds_file :: "string option"
  corner :: "corner option"
  supplies :: "supplies option"
  provides :: "provide list"

section \<open>Corner filename parser (\<open>SKY130Tech.gen_config\<close>)\<close>

text \<open>
  \<open>re.split('_(ff)|_(ss)|_(tt)', tmp)\<close>.  The result alternates the text between matches
  with the three capture groups of each match; a group that took no part in the match is
  Python's \<open>None\<close>.  At one position at most one alternative can match.  \<open>acc\<close> holds the
  text read since the last match, reversed.
\<close>

fun re_split_aux :: "string \<Rightarrow> string \<Rightarrow> string option list" where
  "re_split_aux acc [] = [Some (rev acc)]"
| "re_split_aux acc (c # cs) =
     (if prefix ''_ff'' (c # cs)
      then Some (rev acc) # Some ''ff'' # None # None # re_split_aux [] (drop 3 (c # cs))
      else if prefix ''_ss'' (c # cs)
      then Some (rev acc) # None # Some ''ss'' # None # re_split_aux [] (drop 3 (c # cs))
      else if prefix ''_tt'' (c # cs)
      then Some (rev acc) # None # None # Some ''tt'' # re_split_aux [] (drop 3 (c # cs))
      else re_split_aux (c # acc) cs)"

definition re_split_corner :: "string \<Rightarrow> string option list" where
  "re_split_corner tmp = re_split_aux [] tmp"

text \<open>
  Lines 61-68: \<open>cell_name = split_cell_corner[0]\<close>, \<open>process = split_cell_corner[1:-1]\<close>,
  \<open>temp_volt = split_cell_corner[-1].split('_')[1:]\<close>.  A \<open>None\<close> in the place of a text
  piece would raise (\<open>None.split\<close>: AttributeError).
\<close>

definition split_corner_name :: "string \<Rightarrow> error + (string option \<times> string option list \<times> string list)" where
  "split_corner_name cornerfilename =
     (let tmp = replace_py ''.lib'' '''' cornerfilename;
          split_cell_corner = re_split_corner tmp;
          cell_name = hd split_cell_corner;
          process = butlast (tl split_cell_corner)
      in case last split_cell_corner of
           None \<Rightarrow> Inl AttributeError
         | Some t \<Rightarrow> Inr (cell_name, process, tl (split_py ''_'' t)))"

text \<open>
  Lines 71-73: the cross-corner filter.  \<open>map\<close> over two lists stops at the shorter one;
  \<open>functools.reduce\<close> folds from the left starting at \<open>True\<close>.
\<close>

definition cross_corner :: "string option list \<Rightarrow> bool" where
  "cross_corner process =
     (length process > 3 \<and>
      \<not> foldl (\<lambda>x y. x \<and> y) True
          (map (\<lambda>(p, q). p = q) (zip (take 3 process) (drop 4 process))))"

text \<open>The three consecutive \<open>if\<close> statements that rename the speed (lines 76-81, 201-206).\<close>

definition speed_name :: "string \<Rightarrow> string" where
  "speed_name speed0 =
     (let speed1 = (if speed0 = ''ff'' then ''fast'' else speed0);
          speed2 = (if speed1 = ''tt'' then ''typical'' else speed1);
          speed3 = (if speed2 = ''ss'' then ''slow'' else speed2)
      in speed3)"

text \<open>
  Line 75: \<open>next(c for c in process if c is not None).replace('_', '')\<close>; \<open>next\<close> on an
  exhausted generator raises StopIteration.
\<close>

definition corner_speed :: "string option list \<Rightarrow> error + string" where
  "corner_speed process =
     (case find (\<lambda>c. c \<noteq> None) process of
        None \<Rightarrow> Inl StopIteration
      | Some None \<Rightarrow> Inl StopIteration
      | Some (Some c) \<Rightarrow> Inr (speed_name (replace_py ''_'' '''' c)))"

text \<open>Lines 83-85 and 208-210: \<open>temp.replace('n', '-')\<close>, then \<open>temp.split('C')[0] + ' C'\<close>.\<close>

definition parse_temp :: "string \<Rightarrow> string" where
  "parse_temp temp = hd (split_py ''C'' (replace_py ''n'' ''-'' temp)) @ '' C''"

text \<open>
  Lines 88-93: the voltage filter; \<open>True\<close> stands for \<open>continue\<close>.  \<open>temp_volt[2]\<close>
  raises IndexError on a shorter list.
\<close>

definition voltage_filtered :: "string list \<Rightarrow> error + bool" where
  "voltage_filtered temp_volt =
     (case index_py temp_volt 2 of
        Inl e \<Rightarrow> Inl e
      | Inr v2 \<Rightarrow>
          if startswith v2 ''1'' then Inr True
          else if length temp_volt = 4 \<and> startswith (temp_volt ! 3) ''1'' then Inr True
          else Inr False)"

definition SKYWATER_LIBS_io :: string where
  "SKYWATER_LIBS_io = path_join (path_join ''$SKY130A'' ''libs.ref'') ''sky130_fd_io''"

text \<open>
  Lines 95-138: the artifact paths by cell name and the Library entry.  \<open>'sky130_ef_io' in
  cell_name\<close> raises TypeError when \<open>cell_name\<close> is \<open>None\<close>.
\<close>

definition io_library :: "string \<Rightarrow> string option \<Rightarrow> string \<Rightarrow> string \<Rightarrow> string \<Rightarrow> error + library" where
  "io_library cornerfilename cell_name speed temp vdd =
     (case cell_name of
        None \<Rightarrow> Inl TypeError
      | Some cell \<Rightarrow>
          let (file_lib, gds_file, lef_file, spice_file) =
                (if cell = ''sky130_ef_io__gpiov2_pad_wrapped''
                 then (''sky130_ef_io'', cell @ ''.gds'', ''cache/sky130_ef_io.lef'',
                       path_join (path_join SKYWATER_LIBS_io ''cdl'') (''sky130_ef_io'' @ ''.cdl''))
                 else if is_in ''sky130_ef_io'' cell
                 then (''sky130_ef_io'', ''sky130_ef_io'' @ ''.gds'', ''cache/'' @ ''sky130_ef_io'' @ ''.lef'',
                       path_join (path_join SKYWATER_LIBS_io ''cdl'') (''sky130_ef_io'' @ ''.cdl''))
                 else (''sky130_fd_io'', ''sky130_fd_io'' @ ''.gds'',
                       path_join (path_join SKYWATER_LIBS_io ''lef'') (''sky130_fd_io'' @ ''.lef''),
                       path_join (path_join SKYWATER_LIBS_io ''spice'') (''sky130_fd_io'' @ ''.spice'')))
          in Inr \<lparr> nldm_liberty_file = Some (path_join (path_join SKYWATER_LIBS_io ''lib'') cornerfilename),
                   verilog_sim = Some (path_join (path_join SKYWATER_LIBS_io ''verilog'') (file_lib @ ''.v'')),
                   lef_file = Some lef_file,
                   spice_file = Some spice_file,
                   gds_file = Some (path_join (path_join SKYWATER_LIBS_io ''gds'') gds_file),
                   corner = Some \<lparr> nmos = speed, pmos = speed, temperature = temp \<rparr>,
                   supplies = Some \<lparr> VDD = vdd, GND = ''0 V'' \<rparr>,
                   provides = [\<lparr> lib_type = cell, vt = Some ''RVT'' \<rparr>] \<rparr>)"

text \<open>
  Lines 56-139: the body of the loop over the IO corner files.  \<open>Inr None\<close> is
  \<open>continue\<close> (no record), \<open>Inr (Some lib)\<close> is the record appended to \<open>libs\<close>, \<open>Inl e\<close>
  is the exception that ends \<open>gen_config\<close>.
\<close>

definition io_library_entry :: "string \<Rightarrow> error + library option" where
  "io_library_entry cornerfilename =
     (if is_in ''nointpwr'' cornerfilename then Inr None
      else case split_corner_name cornerfilename of
        Inl e \<Rightarrow> Inl e
      | Inr (cell_name, process, temp_volt) \<Rightarrow>
          if cross_corner process then Inr None
          else case corner_speed process of
            Inl e \<Rightarrow> Inl e
          | Inr speed \<Rightarrow>
              (case index_py temp_volt 0 of
                 Inl e \<Rightarrow> Inl e
               | Inr temp0 \<Rightarrow>
                   let temp = parse_temp temp0 in
                   (case index_py temp_volt 1 of
                      Inl e \<Rightarrow> Inl e
                    | Inr v1 \<Rightarrow>
                        let vdd = join_py ''.'' (split_py ''v'' v1) @ '' V'' in
                        (case voltage_filtered temp_volt of
                           Inl e \<Rightarrow> Inl e
                         | Inr True \<Rightarrow> Inr None
                         | Inr False \<Rightarrow>
                             (case io_library cornerfilename cell_name speed temp vdd of
                                Inl e \<Rightarrow> Inl e
                              | Inr lib_entry \<Rightarrow> Inr (Some lib_entry))))))"

text \<open>
  Lines 187-242: the body of the loop over the corner files of the \<open>sky130_fd_sc_hd\<close>
  family.  \<open>lib_corner_files\<close> is the sorted directory listing.
\<close>

definition SKYWATER_LIBS_hd :: string where
  "SKYWATER_LIBS_hd = path_join (path_join ''$SKY130A'' ''libs.ref'') ''sky130_fd_sc_hd''"

definition hd_library_entry :: "string list \<Rightarrow> string \<Rightarrow> error + library option" where
  "hd_library_entry lib_corner_files cornerfilename0 =
     (if \<not> is_in ''sky130'' cornerfilename0 then Inr None
      else if is_in ''ccsnoise'' cornerfilename0 then Inr None
      else
        let tmp = replace_py ''.lib'' '''' cornerfilename0;
            cornerfilename = (if tmp @ ''_ccsnoise.lib'' \<in> set lib_corner_files
                              then tmp @ ''_ccsnoise.lib'' else cornerfilename0)
        in case index_py (split_py ''__'' tmp) 1 of
             Inl e \<Rightarrow> Inl e
           | Inr cornername \<Rightarrow>
               let cornerparts = split_py ''_'' cornername;
                   speed = speed_name (hd cornerparts)
               in (case index_py cornerparts 1 of
                     Inl e \<Rightarrow> Inl e
                   | Inr temp0 \<Rightarrow>
                       let temp = parse_temp temp0 in
                       (case index_py cornerparts 2 of
                          Inl e \<Rightarrow> Inl e
                        | Inr vdd0 \<Rightarrow>
                            (case index_py (split_py ''v'' vdd0) 1 of
                               Inl e \<Rightarrow> Inl e
                             | Inr frac \<Rightarrow>
                                 let vdd = hd (split_py ''v'' vdd0) @ ''.'' @ frac @ '' V'' in
                                 Inr (Some
                                   \<lparr> nldm_liberty_file = Some (path_join (path_join SKYWATER_LIBS_hd ''lib'') cornerfilename),
                                     verilog_sim = Some (path_join ''cache'' (''sky130_fd_sc_hd'' @ ''.v'')),
                                     lef_file = Some (path_join (path_join SKYWATER_LIBS_hd ''lef'') (''sky130_fd_sc_hd'' @ ''.lef'')),
                                     spice_file = Some (path_join ''cache'' (''sky130_fd_sc_hd'' @ ''.cdl'')),
                                     gds_file = Some (path_join (path_join SKYWATER_LIBS_hd ''gds'') (''sky130_fd_sc_hd'' @ ''.gds'')),
                                     corner = Some \<lparr> nmos = speed, pmos = speed, temperature = temp \<rparr>,
                                     supplies = Some \<lparr> VDD = vdd, GND = ''0 V'' \<rparr>,
                                     provides = [\<lparr> lib_type = ''stdcell'', vt = Some ''RVT'' \<rparr>] \<rparr>)))))"

text \<open>
  Lines 279-334: the body of the loop over the corner files of the \<open>sky130_scl\<close> family,
  with its hard-coded corners.  \<open>SKY130_CDS_LIB\<close> and \<open>SKY130_CDS\<close> are the values of the
  settings \<open>technology.sky130.sky130_scl\<close> and \<open>technology.sky130.sky130_cds\<close>.
\<close>

definition scl_corner :: "string \<Rightarrow> string \<times> string \<times> string" where
  "scl_corner speed0 =
     (let (speed1, vdd1, temp1) =
            (if speed0 = ''ff'' then (''fast'', ''1.95 V'', ''-40 C'') else (speed0, '''', ''''));
          (speed2, vdd2, temp2) =
            (if speed1 = ''tt'' then (''typical'', ''1.80 V'', ''25 C'') else (speed1, vdd1, temp1));
          (speed3, vdd3, temp3) =
            (if speed2 = ''ss'' then (''slow'', ''1.60 V'', ''100 C'') else (speed2, vdd2, temp2))
      in (speed3, vdd3, temp3))"

datatype setting = SStr string | SBool bool | SNone

text \<open>A setting used as a path component: \<open>os.path.join\<close> raises TypeError on a non-string.\<close>

fun path_setting :: "setting \<Rightarrow> error + string" where
  "path_setting (SStr s) = Inr s"
| "path_setting _ = Inl TypeError"

definition scl_library_entry :: "string \<Rightarrow> setting \<Rightarrow> string list \<Rightarrow> string \<Rightarrow> error + library option" where
  "scl_library_entry SKY130_CDS_LIB SKY130_CDS lib_corner_files cornerfilename0 =
     (if \<not> is_in ''sky130'' cornerfilename0 then Inr None
      else if is_in ''ccsnoise'' cornerfilename0 then Inr None
      else
        let tmp = replace_py ''.lib'' '''' cornerfilename0;
            cornerfilename = (if tmp @ ''_ccsnoise.lib'' \<in> set lib_corner_files
                              then tmp @ ''_ccsnoise.lib'' else cornerfilename0);
            cornername = replace_py ''sky130_'' '''' tmp;
            cornerparts = split_py ''_'' cornername;
            (speed, vdd, temp) = scl_corner (hd cornerparts)
        in case path_setting SKY130_CDS of
             Inl e \<Rightarrow> Inl e
           | Inr cds \<Rightarrow>
               Inr (Some
                 \<lparr> nldm_liberty_file = Some (path_join (path_join SKY130_CDS_LIB ''lib'') cornerfilename),
                   verilog_sim = Some (path_join ''cache'' (''sky130_scl'' @ ''.v'')),
                   lef_file = Some (path_join (path_join SKY130_CDS_LIB ''lef'') (''sky130_scl'' @ ''_9T.lef'')),
                   spice_file = Some (path_join ''cache'' (''sky130_scl'' @ ''.cdl'')),
                   gds_file = Some (path_join (path_join cds ''gds'') (''sky130_scl'' @ ''_9T.gds'')),
                   corner = Some \<lparr> nmos = speed, pmos = speed, temperature = temp \<rparr>,
                   supplies = Some \<lparr> VDD = vdd, GND = ''0 V'' \<rparr>,
                   provides = [\<lparr> lib_type = ''stdcell'', vt = Some ''RVT'' \<rparr>] \<rparr>))"

text \<open>
  A \<open>for\<close> loop that appends the record of every file that is not skipped and stops at
  the first exception.
\<close>

fun collect_entries :: "(string \<Rightarrow> error + library option) \<Rightarrow> string list \<Rightarrow> library list \<Rightarrow> error + library list" where
  "collect_entries f [] libs = Inr libs"
| "collect_entries f (cornerfilename # files) libs =
     (case f cornerfilename of
        Inl e \<Rightarrow> Inl e
      | Inr None \<Rightarrow> collect_entries f files libs
      | Inr (Some lib_entry) \<Rightarrow> collect_entries f files (libs @ [lib_entry]))"

section \<open>Descriptor generation (\<open>SKY130Tech.gen_config\<close>)\<close>

text \<open>
  The host's settings store holds strings, booleans and null values (\<open>setting\<close>);
  \<open>get_setting\<close> and \<open>set_setting\<close> belong to the host framework and are modelled as
  reading and updating a total store.
\<close>

type_synonym settings = "string \<Rightarrow> setting"

definition get_setting :: "settings \<Rightarrow> string \<Rightarrow> setting" where
  "get_setting db key = db key"

definition set_setting :: "settings \<Rightarrow> string \<Rightarrow> setting \<Rightarrow> settings" where
  "set_setting db key v = db(key := v)"

text \<open>Python's truth value of a setting (\<open>if self.get_setting(...)\<close>).\<close>

fun truthy :: "setting \<Rightarrow> bool" where
  "truthy (SStr s) = (s \<noteq> [])"
| "truthy (SBool b) = b"
| "truthy SNone = False"

text \<open>The text an f-string prints for a setting.\<close>

fun format_setting :: "setting \<Rightarrow> string" where
  "format_setting (SStr s) = s"
| "format_setting (SBool b) = (if b then ''True'' else ''False'')"
| "format_setting SNone = ''None''"

text \<open>
  Metal layers are produced by the host's \<open>LEFUtils.get_metals\<close> and validated by
  \<open>Metal.model_validate\<close>; both are outside this plugin and are a parameter of the
  model, as is \<open>os.listdir\<close>.
\<close>

typedecl metal

record environment =
  listdir :: "string \<Rightarrow> error + string list"
  get_metals :: "string \<Rightarrow> error + metal list"

record special_cell =
  cell_type :: string
  cell_names :: "string list"
  input_ports :: "string list option"
  output_ports :: "string list option"

record stackup =
  stackup_name :: string
  grid_unit :: string
  metals :: "metal list"

text \<open>
  The fields of \<open>TechJSON\<close> that \<open>gen_config\<close> computes; the remaining fields (name,
  install prefixes, rule decks, sites) are literals of the source.
\<close>

record techjson =
  libraries :: "library list"
  physical_only_cells_list :: "string list"
  dont_use_list :: "string list"
  stackups :: "stackup list"
  special_cells :: "special_cell list"

text \<open>
  The attributes of the \<open>SKY130Tech\<close> object the plugin reads and writes.  \<open>library_name\<close>
  and \<open>use_sram22\<close> exist only once \<open>post_install_script\<close> has set them.
\<close>

record tech =
  settings :: settings
  cache_dir :: string
  config :: "techjson option"
  library_name :: "string option"
  use_sram22 :: "bool option"

definition library_empty :: library where
  "library_empty =
     \<lparr> nldm_liberty_file = None, verilog_sim = None, lef_file = None, spice_file = None,
       gds_file = None, corner = None, supplies = None, provides = [] \<rparr>"

definition phys_only_cells :: "string list" where
  "phys_only_cells =
     [''sky130_fd_sc_hd__tap_1'', ''sky130_fd_sc_hd__tap_2'', ''sky130_fd_sc_hd__tapvgnd_1'',
      ''sky130_fd_sc_hd__tapvpwrvgnd_1'', ''sky130_fd_sc_hd__fill_1'', ''sky130_fd_sc_hd__fill_2'',
      ''sky130_fd_sc_hd__fill_4'', ''sky130_fd_sc_hd__fill_8'', ''sky130_fd_sc_hd__diode_2'']"

definition dont_use_cells :: "string list" where
  "dont_use_cells = [''*sdf*'', ''sky130_fd_sc_hd__probe_p_*'', ''sky130_fd_sc_hd__probec_p_*'']"

definition spcl_cells_hd :: "special_cell list" where
  "spcl_cells_hd =
     [\<lparr> cell_type = ''tiehilocell'', cell_names = [''sky130_fd_sc_hd__conb_1''],
        input_ports = None, output_ports = None \<rparr>,
      \<lparr> cell_type = ''tiehicell'', cell_names = [''sky130_fd_sc_hd__conb_1''],
        input_ports = None, output_ports = Some [''HI''] \<rparr>,
      \<lparr> cell_type = ''tielocell'', cell_names = [''sky130_fd_sc_hd__conb_1''],
        input_ports = None, output_ports = Some [''LO''] \<rparr>,
      \<lparr> cell_type = ''endcap'', cell_names = [''sky130_fd_sc_hd__tap_1''],
        input_ports = None, output_ports = None \<rparr>,
      \<lparr> cell_type = ''tapcell'', cell_names = [''sky130_fd_sc_hd__tapvpwrvgnd_1''],
        input_ports = None, output_ports = None \<rparr>,
      \<lparr> cell_type = ''stdfiller'',
        cell_names = [''sky130_fd_sc_hd__fill_1'', ''sky130_fd_sc_hd__fill_2'',
                      ''sky130_fd_sc_hd__fill_4'', ''sky130_fd_sc_hd__fill_8''],
        input_ports = None, output_ports = None \<rparr>,
      \<lparr> cell_type = ''decap'',
        cell_names = [''sky130_fd_sc_hd__decap_3'', ''sky130_fd_sc_hd__decap_4'',
                      ''sky130_fd_sc_hd__decap_6'', ''sky130_fd_sc_hd__decap_8'',
                      ''sky130_fd_sc_hd__decap_12''],
        input_ports = None, output_ports = None \<rparr>,
      \<lparr> cell_type = ''driver'', cell_names = [''sky130_fd_sc_hd__buf_4''],
        input_ports = Some [''A''], output_ports = Some [''X''] \<rparr>,
      \<lparr> cell_type = ''ctsbuffer'', cell_names = [''sky130_fd_sc_hd__clkbuf_1''],
        input_ports = None, output_ports = None \<rparr>]"

text \<open>The filler names are \<open>f"FILL{i**2}"\<close> for \<open>i\<close> in \<open>range(7)\<close>.\<close>

definition spcl_cells_scl :: "special_cell list" where
  "spcl_cells_scl =
     [\<lparr> cell_type = ''stdfiller'',
        cell_names = [''FILL0'', ''FILL1'', ''FILL4'', ''FILL9'', ''FILL16'', ''FILL25'', ''FILL36''],
        input_ports = None, output_ports = None \<rparr>,
      \<lparr> cell_type = ''driver'', cell_names = [''TBUF''],
        input_ports = Some [''A''], output_ports = Some [''Y''] \<rparr>,
      \<lparr> cell_type = ''ctsbuffer'', cell_names = [''CLKBUFX2''],
        input_ports = None, output_ports = None \<rparr>]"

text \<open>
  Lines 148-250: the \<open>sky130_fd_sc_hd\<close> branch.  The result pairs the object after the
  call with the exception raised, if any: an attribute or setting written before a raise
  stays written.
\<close>

definition gen_config_hd :: "environment \<Rightarrow> tech \<Rightarrow> string \<Rightarrow> library list \<Rightarrow> tech \<times> error option" where
  "gen_config_hd env st SKY130A libs =
     (let LIBRARY_PATH =
            path_join (path_join (path_join SKY130A ''libs.ref'') ''sky130_fd_sc_hd'') ''lib''
      in case listdir env LIBRARY_PATH of
           Inl e \<Rightarrow> (st, Some e)
         | Inr listing \<Rightarrow>
             let lib_corner_files = sort listing in
             (case collect_entries (hd_library_entry lib_corner_files) lib_corner_files libs of
                Inl e \<Rightarrow> (st, Some e)
              | Inr libs' \<Rightarrow>
                  let tlef_path =
                        path_join (path_join (path_join (path_join SKY130A ''libs.ref'')
                          ''sky130_fd_sc_hd'') ''techlef'') (''sky130_fd_sc_hd'' @ ''__min.tlef'')
                  in (case get_metals env tlef_path of
                        Inl e \<Rightarrow> (st, Some e)
                      | Inr ms \<Rightarrow>
                          (st\<lparr> config := Some
                                \<lparr> libraries = libs',
                                  physical_only_cells_list = phys_only_cells,
                                  dont_use_list = dont_use_cells,
                                  stackups = [\<lparr> stackup_name = ''sky130_fd_sc_hd'',
                                                grid_unit = ''0.001'', metals = ms \<rparr>],
                                  special_cells = spcl_cells_hd \<rparr> \<rparr>,
                           None))))"

text \<open>
  Lines 252-343: the \<open>sky130_scl\<close> branch, which starts by writing the setting
  \<open>synthesis.clock_gating_mode\<close>.
\<close>

definition gen_config_scl :: "environment \<Rightarrow> tech \<Rightarrow> setting \<Rightarrow> setting \<Rightarrow> library list \<Rightarrow> tech \<times> error option" where
  "gen_config_scl env st0 SKY130_CDS_LIB SKY130_CDS libs =
     (let st = st0\<lparr> settings := set_setting (settings st0) ''synthesis.clock_gating_mode'' (SStr '''') \<rparr>
      in case path_setting SKY130_CDS_LIB of
           Inl e \<Rightarrow> (st, Some e)
         | Inr scl \<Rightarrow>
             (case listdir env (path_join scl ''lib'') of
                Inl e \<Rightarrow> (st, Some e)
              | Inr listing \<Rightarrow>
                  let lib_corner_files = sort listing in
                  (case collect_entries (scl_library_entry scl SKY130_CDS lib_corner_files)
                          lib_corner_files libs of
                     Inl e \<Rightarrow> (st, Some e)
                   | Inr libs' \<Rightarrow>
                       let tlef_path = path_join (path_join scl ''lef'') (''sky130_scl'' @ ''_9T.tlef'')
                       in (case get_metals env tlef_path of
                             Inl e \<Rightarrow> (st, Some e)
                           | Inr ms \<Rightarrow>
                               (st\<lparr> config := Some
                                     \<lparr> libraries = libs',
                                       physical_only_cells_list = phys_only_cells,
                                       dont_use_list = dont_use_cells,
                                       stackups = [\<lparr> stackup_name = ''sky130_scl'',
                                                     grid_unit = ''0.001'', metals = ms \<rparr>],
                                       special_cells = spcl_cells_scl \<rparr> \<rparr>,
                                None)))))"

text \<open>
  Lines 27-139 and the dispatch on the family.  A family other than the two known ones
  raises ValueError at line 48, before anything is read; the \<open>else\<close> at line 345 is the
  same test again.
\<close>

definition gen_config :: "environment \<Rightarrow> tech \<Rightarrow> tech \<times> error option" where
  "gen_config env st =
     (let slib = get_setting (settings st) ''technology.sky130.stdcell_library'';
          SKY130A = get_setting (settings st) ''technology.sky130.sky130A'';
          SKY130_CDS = get_setting (settings st) ''technology.sky130.sky130_cds'';
          SKY130_CDS_LIB = get_setting (settings st) ''technology.sky130.sky130_scl'';
          libs0 = [library_empty\<lparr>
                     spice_file := Some ''$SKY130A/libs.ref/sky130_fd_io/spice/sky130_ef_io__analog.spice'',
                     provides := [\<lparr> lib_type = ''IO library'', vt = None \<rparr>] \<rparr>]
      in if slib \<noteq> SStr ''sky130_fd_sc_hd'' \<and> slib \<noteq> SStr ''sky130_scl''
         then (st, Some (ValueError (''Incorrect standard cell library selection: '' @ format_setting slib)))
         else
           let libs1 = libs0 @
                 (if slib = SStr ''sky130_fd_sc_hd''
                  then [library_empty\<lparr> lef_file := Some ''$SKY130A/sky130_fd_sc_hd__nom.tlef'',
                                       verilog_sim := Some ''cache/primitives.v'',
                                       provides := [\<lparr> lib_type = ''technology'', vt = None \<rparr>] \<rparr>]
                  else [library_empty\<lparr> lef_file := Some ''$SKY130_SCL/lef/sky130_scl_9T.tlef'',
                                       verilog_sim := Some ''$SKY130_SCL/verilog/sky130_scl_9T.v'',
                                       provides := [\<lparr> lib_type = ''technology'', vt = None \<rparr>] \<rparr>])
           in case path_setting SKY130A of
                Inl e \<Rightarrow> (st, Some e)
              | Inr a \<Rightarrow>
                  let LIBRARY_PATH =
                        path_join (path_join (path_join a ''libs.ref'') ''sky130_fd_io'') ''lib''
                  in (case listdir env LIBRARY_PATH of
                        Inl e \<Rightarrow> (st, Some e)
                      | Inr listing \<Rightarrow>
                          (case collect_entries io_library_entry (sort listing) libs1 of
                             Inl e \<Rightarrow> (st, Some e)
                           | Inr libs2 \<Rightarrow>
                               if slib = SStr ''sky130_fd_sc_hd''
                               then gen_config_hd env st a libs2
                               else gen_config_scl env st SKY130_CDS_LIB SKY130_CDS libs2)))"

section \<open>Legacy artifact patch engine\<close>

text \<open>
  The file system has two parts.  \<open>resolve\<close> is the operating system's reading of a path:
  it gives the file that a spelling names, so that two spellings of one file (a relative
  and an absolute path, a symbolic or a hard link) resolve to the same identifier, and
  the jobs below, which create no link, leave it as it is.  \<open>nodes\<close> gives what a file
  holds: its content, a directory, or nothing when no such file exists.  The content of
  a file is its text as written; the directories above a path, permissions and the
  encoding of the text are not represented.  A patch job returns the file system after
  the job, or the exception it raised (the partly written destination left by a raise is
  not part of the result).
\<close>

datatype node = File string | Dir

type_synonym file_id = string

record filesystem =
  resolve :: "string \<Rightarrow> file_id"
  nodes :: "file_id \<Rightarrow> node option"

definition node_at :: "filesystem \<Rightarrow> string \<Rightarrow> node option" where
  "node_at fs path = nodes fs (resolve fs path)"

text \<open>\<open>os.makedirs(path, exist_ok=True)\<close>: a file in the way raises FileExistsError.\<close>

definition makedirs :: "filesystem \<Rightarrow> string \<Rightarrow> error + filesystem" where
  "makedirs fs path =
     (case node_at fs path of
        Some (File c) \<Rightarrow> Inl FileExistsError
      | _ \<Rightarrow> Inr (fs\<lparr> nodes := (nodes fs)(resolve fs path \<mapsto> Dir) \<rparr>))"

text \<open>
  \<open>with open(source_path, 'r') as sf: with open(dest_path, 'w') as df:\<close> gives the text
  that is then read from \<open>sf\<close>.  Opening the destination truncates it before the first
  read, so a source that is the same file as its destination, under whatever spelling,
  reads as empty.
\<close>

definition open_source_dest :: "filesystem \<Rightarrow> string \<Rightarrow> string \<Rightarrow> error + string" where
  "open_source_dest fs source_path dest_path =
     (case node_at fs source_path of
        None \<Rightarrow> Inl (FileNotFoundError source_path)
      | Some Dir \<Rightarrow> Inl IsADirectoryError
      | Some (File content) \<Rightarrow>
          (case node_at fs dest_path of
             Some Dir \<Rightarrow> Inl IsADirectoryError
           | _ \<Rightarrow> Inr (if resolve fs source_path = resolve fs dest_path then []
                       else universal_newlines content)))"

definition write_file :: "filesystem \<Rightarrow> string \<Rightarrow> string \<Rightarrow> filesystem" where
  "write_file fs path content = fs\<lparr> nodes := (nodes fs)(resolve fs path \<mapsto> File content) \<rparr>"

text \<open>
  \<open>[idx for idx in range(lo, hi) if p(sl[idx])][0]\<close>: the first index of the range whose
  line satisfies \<open>p\<close>, IndexError when there is none.
\<close>

definition first_index :: "(string \<Rightarrow> bool) \<Rightarrow> string list \<Rightarrow> nat \<Rightarrow> nat \<Rightarrow> error + nat" where
  "first_index p sl lo hi =
     (case filter (\<lambda>idx. p (sl ! idx)) [lo..<hi] of
        [] \<Rightarrow> Inl IndexError
      | idx # _ \<Rightarrow> Inr idx)"

subsection \<open>Transistor netlist (\<open>setup_cdl\<close>)\<close>

definition cdl_line :: "string \<Rightarrow> string \<Rightarrow> string \<Rightarrow> string" where
  "cdl_line pmos_dev nmos_dev line =
     replace_py ''nfet_01v8'' nmos_dev (replace_py ''pfet_01v8_hvt'' pmos_dev line)"

definition setup_cdl :: "tech \<Rightarrow> filesystem \<Rightarrow> error + filesystem" where
  "setup_cdl st fs =
     (case path_setting (get_setting (settings st) ''technology.sky130.sky130A'') of
        Inl e \<Rightarrow> Inl e
      | Inr setting_dir \<Rightarrow>
      (case library_name st of
        None \<Rightarrow> Inl AttributeError
      | Some lib \<Rightarrow>
          let source_path =
                path_div (path_div (path_div (path_div setting_dir ''libs.ref'') lib) ''cdl'')
                  (lib @ ''.cdl'')
          in if node_at fs source_path = None
             then Inl (FileNotFoundError (''CDL not found: '' @ source_path))
             else
               (case makedirs fs (pathlib_str (cache_dir st)) of
                  Inl e \<Rightarrow> Inl e
                | Inr fs1 \<Rightarrow>
                    let dest_path = path_div (pathlib_str (cache_dir st)) (lib @ ''.cdl'');
                        lvs_tool = get_setting (settings st) ''vlsi.core.lvs_tool'';
                        (pmos_dev, nmos_dev) =
                          (if lvs_tool = SStr ''hammer.lvs.calibre'' then (''phighvt'', ''nshort'')
                           else if lvs_tool = SStr ''hammer.lvs.netgen''
                           then (''sky130_fd_pr__pfet_01v8_hvt'', ''sky130_fd_pr__nfet_01v8'')
                           else (''pfet_01v8_hvt'', ''nfet_01v8''))
                    in (case open_source_dest fs1 source_path dest_path of
                          Inl e \<Rightarrow> Inl e
                        | Inr content \<Rightarrow>
                            Inr (write_file fs1 dest_path
                                   (''*.SCALE MICRON\<newline>'' @
                                    concat (map (cdl_line pmos_dev nmos_dev) (readlines content))))))))"

subsection \<open>Logic-simulation model (\<open>setup_verilog\<close>)\<close>

text \<open>Lines 461-465: the two replacements made on every line of the library Verilog.\<close>

definition verilog_line :: "string \<Rightarrow> string" where
  "verilog_line line =
     replace_py ''`endif SKY130_FD_SC_HD__LPFLOW_BLEEDER_FUNCTIONAL_V''
                ''`endif // SKY130_FD_SC_HD__LPFLOW_BLEEDER_FUNCTIONAL_V''
       (replace_py ''wire 1'' ''// wire 1'' line)"

definition broken_substr :: string where
  "broken_substr = ''(SHORT => VPWR) = (0:0:0,0:0:0,0:0:0,0:0:0,0:0:0,0:0:0);''"

text \<open>
  Lines 472-489: the excision of the specify block.  Each \<open>[...][0]\<close> raises IndexError
  when no line of its range qualifies.  The slice assignment \<open>sl[a:b+1] = []\<close> deletes
  the lines \<open>a\<close> to \<open>b\<close>.
\<close>

definition hack_specify :: "string list \<Rightarrow> error + string list" where
  "hack_specify sl =
     (case first_index (is_in ''`ifndef SKY130_FD_SC_HD__LPFLOW_BLEEDER_1_TIMING_V'') sl 0 (length sl) of
        Inl e \<Rightarrow> Inl e
      | Inr start_idx \<Rightarrow>
      (case first_index (is_in broken_substr) sl (start_idx + 1) (length sl) of
        Inl e \<Rightarrow> Inl e
      | Inr broken_specify_idx \<Rightarrow>
      (case first_index (is_in ''`endif'') sl (start_idx + 1) (length sl) of
        Inl e \<Rightarrow> Inl e
      | Inr endif_idx \<Rightarrow>
          if broken_specify_idx < endif_idx
          then
            (case first_index (is_in ''specify'') sl (start_idx + 1) endif_idx of
               Inl e \<Rightarrow> Inl e
             | Inr start_specify_idx \<Rightarrow>
             (case first_index (is_in ''endspecify'') sl (start_idx + 1) endif_idx of
               Inl e \<Rightarrow> Inl e
             | Inr end_specify_idx \<Rightarrow>
                 Inr (if start_specify_idx \<le> end_specify_idx + 1
                      then take start_specify_idx sl @ drop (end_specify_idx + 1) sl
                      else sl)))
          else Inr sl)))"

text \<open>
  Python's \<open>str.isspace\<close> on one ASCII character, which is also what \<open>\s\<close> matches and
  what \<open>strip()\<close> removes.
\<close>

definition isspace :: "char \<Rightarrow> bool" where
  "isspace c =
     (c \<in> set [CHR 0x09, CHR 0x0A, CHR 0x0B, CHR 0x0C, CHR 0x0D,
               CHR 0x1C, CHR 0x1D, CHR 0x1E, CHR 0x1F, CHR 0x20])"

definition strip :: "string \<Rightarrow> string" where
  "strip s = rev (dropWhile isspace (rev (dropWhile isspace s)))"

text \<open>The text before the first occurrence of \<open>pat\<close>, if there is one.\<close>

fun before_first :: "string \<Rightarrow> string \<Rightarrow> string option" where
  "before_first pat [] = (if pat = [] then Some [] else None)"
| "before_first pat (c # cs) =
     (if prefix pat (c # cs) then Some []
      else map_option (Cons c) (before_first pat cs))"

text \<open>
  \<open>re.search(r"^\s*wire SLEEP.*B.*delayed;", value)\<close>.  Without the MULTILINE flag \<open>^\<close>
  is the start of the string; \<open>\s*\<close> takes all leading white space (the next character
  of the pattern is not white space, so giving some back cannot help); \<open>.\<close> does not
  match a newline, so the rest of the match lies before the first newline; and if some
  \<open>B\<close> is followed by \<open>delayed;\<close> then so is the first one.
\<close>

definition is_sleep_decl :: "string \<Rightarrow> bool" where
  "is_sleep_decl v =
     (let r = dropWhile isspace v in
      prefix ''wire SLEEP'' r \<and>
      (case dropWhile (\<lambda>c. c \<noteq> CHR ''B'') (takeWhile (\<lambda>c. c \<noteq> CHR ''\<newline>'') (drop 10 r)) of
         [] \<Rightarrow> False
       | b # after \<Rightarrow> is_in ''delayed;'' after))"

text \<open>
  The group of \<open>SLEEP.*?B.*?delayed\<close> matched at the start of \<open>t\<close> (a text without
  newline): the lazy quantifiers stop at the first \<open>B\<close> and at the first \<open>delayed\<close>
  after it.
\<close>

definition capture_at :: "string \<Rightarrow> string option" where
  "capture_at t =
     (if prefix ''SLEEP'' t
      then (let r = drop 5 t;
                a = takeWhile (\<lambda>c. c \<noteq> CHR ''B'') r
            in case dropWhile (\<lambda>c. c \<noteq> CHR ''B'') r of
                 [] \<Rightarrow> None
               | b # after \<Rightarrow>
                   (case before_first ''delayed'' after of
                      None \<Rightarrow> None
                    | Some d \<Rightarrow> Some (''SLEEP'' @ a @ ''B'' @ d @ ''delayed'')))
      else None)"

text \<open>
  The group of \<open>.*(SLEEP.*?B.*?delayed).*\<close> on a text without newline: the greedy
  \<open>.*\<close> in front makes the match start at the last position where the group matches.
\<close>

fun last_capture :: "string \<Rightarrow> string option" where
  "last_capture [] = None"
| "last_capture (c # cs) =
     (case last_capture cs of
        Some m \<Rightarrow> Some m
      | None \<Rightarrow> capture_at (c # cs))"

text \<open>
  \<open>re.findall(r".*(SLEEP.*?B.*?delayed).*", value)\<close>: a match cannot cross a newline and
  takes the whole rest of its line, so every newline-separated piece gives at most one
  group.
\<close>

definition findall_capture :: "string \<Rightarrow> string list" where
  "findall_capture v =
     concat (map (\<lambda>seg. case last_capture seg of None \<Rightarrow> [] | Some m \<Rightarrow> [m])
                 (split_py ''\<newline>'' v))"

text \<open>
  Line 495: \<open>[(idx, re.findall(capture_pattern, value)[0]) for idx, value in enumerate(sl)
  if re.search(pattern, value)]\<close>.
\<close>

fun pattern_idx_of :: "(nat \<times> string) list \<Rightarrow> error + (nat \<times> string) list" where
  "pattern_idx_of [] = Inr []"
| "pattern_idx_of ((idx, v) # rest) =
     (if is_sleep_decl v
      then (case index_py (findall_capture v) 0 of
              Inl e \<Rightarrow> Inl e
            | Inr canonical \<Rightarrow>
                (case pattern_idx_of rest of
                   Inl e \<Rightarrow> Inl e
                 | Inr ps \<Rightarrow> Inr ((idx, canonical) # ps)))
      else pattern_idx_of rest)"

text \<open>
  Lines 501-506: one line of the search range.  The groups are found in the line as it
  is before the replacements; each group that differs from the canonical name is replaced
  everywhere in the line.
\<close>

definition fix_line :: "string \<Rightarrow> nat \<Rightarrow> string list \<Rightarrow> string list" where
  "fix_line canonical idx sl =
     fold (\<lambda>elem sl'. if elem \<noteq> canonical
                       then sl'[idx := replace_py elem canonical (sl' ! idx)]
                       else sl')
          (findall_capture (sl ! idx)) sl"

text \<open>
  Lines 496-506: for every declaration the lines up to the next declaration, or up to the
  end of the file for the last one.
\<close>

fun fix_net_refs :: "(nat \<times> string) list \<Rightarrow> string list \<Rightarrow> string list" where
  "fix_net_refs [] sl = sl"
| "fix_net_refs ((decl_idx, canonical) # rest) sl =
     (let stop = (case rest of [] \<Rightarrow> length sl | (next_idx, _) # _ \<Rightarrow> next_idx)
      in fix_net_refs rest (fold (fix_line canonical) [decl_idx + 1..<stop] sl))"

definition harmonize :: "string list \<Rightarrow> error + string list" where
  "harmonize sl =
     (case pattern_idx_of (enumerate 0 sl) of
        Inl e \<Rightarrow> Inl e
      | Inr pattern_idx \<Rightarrow> Inr (fix_net_refs pattern_idx sl))"

text \<open>\<open>open(path, 'r')\<close> followed by reading the whole file.\<close>

definition read_file :: "filesystem \<Rightarrow> string \<Rightarrow> error + string" where
  "read_file fs path =
     (case node_at fs path of
        None \<Rightarrow> Inl (FileNotFoundError path)
      | Some Dir \<Rightarrow> Inl IsADirectoryError
      | Some (File content) \<Rightarrow> Inr (universal_newlines content))"

text \<open>Lines 448-510: the library Verilog: copy with line edits, read back, repair, write.\<close>

definition setup_verilog_library :: "tech \<Rightarrow> string \<Rightarrow> string \<Rightarrow> filesystem \<Rightarrow> error + filesystem" where
  "setup_verilog_library st setting_dir lib fs =
     (let source_path =
            path_div (path_div (path_div (path_div setting_dir ''libs.ref'') lib) ''verilog'')
              (lib @ ''.v'')
      in if node_at fs source_path = None
         then Inl (FileNotFoundError (''Verilog not found: '' @ source_path))
         else
           (case makedirs fs (pathlib_str (cache_dir st)) of
              Inl e \<Rightarrow> Inl e
            | Inr fs1 \<Rightarrow>
                let dest_path = path_div (pathlib_str (cache_dir st)) (lib @ ''.v'') in
                (case open_source_dest fs1 source_path dest_path of
                   Inl e \<Rightarrow> Inl e
                 | Inr content \<Rightarrow>
                     let fs2 = write_file fs1 dest_path
                                 (concat (map verilog_line (readlines content)))
                     in (case read_file fs2 dest_path of
                           Inl e \<Rightarrow> Inl e
                         | Inr copied \<Rightarrow>
                             (case hack_specify (readlines copied) of
                                Inl e \<Rightarrow> Inl e
                              | Inr sl1 \<Rightarrow>
                                  (case harmonize sl1 of
                                     Inl e \<Rightarrow> Inl e
                                   | Inr sl2 \<Rightarrow> Inr (write_file fs2 dest_path (concat sl2))))))))"

text \<open>Lines 512-528: \<open>primitives.v\<close>.\<close>

definition setup_verilog_primitives :: "tech \<Rightarrow> string \<Rightarrow> string \<Rightarrow> filesystem \<Rightarrow> error + filesystem" where
  "setup_verilog_primitives st setting_dir lib fs =
     (let source_path =
            path_div (path_div (path_div (path_div setting_dir ''libs.ref'') lib) ''verilog'')
              ''primitives.v''
      in if node_at fs source_path = None
         then Inl (FileNotFoundError (''Verilog not found: '' @ source_path))
         else
           (case makedirs fs (pathlib_str (cache_dir st)) of
              Inl e \<Rightarrow> Inl e
            | Inr fs1 \<Rightarrow>
                let dest_path = path_div (pathlib_str (cache_dir st)) ''primitives.v'' in
                (case open_source_dest fs1 source_path dest_path of
                   Inl e \<Rightarrow> Inl e
                 | Inr content \<Rightarrow>
                     Inr (write_file fs1 dest_path
                            (concat (map (replace_py ''`default_nettype none'' ''`default_nettype wire'')
                                         (readlines content)))))))"

definition setup_verilog :: "tech \<Rightarrow> filesystem \<Rightarrow> error + filesystem" where
  "setup_verilog st fs =
     (case path_setting (get_setting (settings st) ''technology.sky130.sky130A'') of
        Inl e \<Rightarrow> Inl e
      | Inr setting_dir \<Rightarrow>
      (case library_name st of
        None \<Rightarrow> Inl AttributeError
      | Some lib \<Rightarrow>
          (case setup_verilog_library st setting_dir lib fs of
             Inl e \<Rightarrow> Inl e
           | Inr fs' \<Rightarrow> setup_verilog_primitives st setting_dir lib fs')))"

subsection \<open>Technology LEF (\<open>setup_techlef\<close>)\<close>

definition the_tlef_edit :: string where
  "the_tlef_edit = ''\<newline>LAYER licon\<newline>  TYPE CUT ;\<newline>END licon\<newline>''"

definition techlef_line :: "string \<Rightarrow> string" where
  "techlef_line line = line @ (if strip line = ''END pwell'' then the_tlef_edit else [])"

definition setup_techlef :: "tech \<Rightarrow> filesystem \<Rightarrow> error + filesystem" where
  "setup_techlef st fs =
     (case path_setting (get_setting (settings st) ''technology.sky130.sky130A'') of
        Inl e \<Rightarrow> Inl e
      | Inr setting_dir \<Rightarrow>
      (case library_name st of
        None \<Rightarrow> Inl AttributeError
      | Some lib \<Rightarrow>
          let source_path =
                path_div (path_div (path_div (path_div setting_dir ''libs.ref'') lib) ''techlef'')
                  (lib @ ''__nom.tlef'')
          in if node_at fs source_path = None
             then Inl (FileNotFoundError (''Tech-LEF not found: '' @ source_path))
             else
               (case makedirs fs (pathlib_str (cache_dir st)) of
                  Inl e \<Rightarrow> Inl e
                | Inr fs1 \<Rightarrow>
                    let dest_path = path_div (pathlib_str (cache_dir st)) (lib @ ''__nom.tlef'') in
                    (case open_source_dest fs1 source_path dest_path of
                       Inl e \<Rightarrow> Inl e
                     | Inr content \<Rightarrow>
                         Inr (write_file fs1 dest_path
                                (concat (map techlef_line (readlines content))))))))"

subsection \<open>IO cell LEF (\<open>setup_io_lefs\<close>)\<close>

text \<open>\<open>[idx for idx, line in enumerate(sl) if p(line)]\<close>.\<close>

definition indices_where :: "(string \<Rightarrow> bool) \<Rightarrow> string list \<Rightarrow> nat list" where
  "indices_where p sl = map fst (filter (\<lambda>(idx, line). p line) (enumerate 0 sl))"

definition class_core :: string where
  "class_core = ''PORT\<newline>      CLASS CORE ;''"

text \<open>
  Lines 576-581: one interval \<open>(intv[0], intv[1])\<close>.  The slice \<open>sl[a:b]\<close> is empty when
  \<open>b \<le> a\<close>; \<open>port_idx\<close> is computed before the lines of the interval are rewritten.
\<close>

definition class_core_interval :: "nat \<times> nat \<Rightarrow> string list \<Rightarrow> string list" where
  "class_core_interval intv sl =
     (let port_idx = indices_where (is_in ''PORT'') (take (snd intv - fst intv) (drop (fst intv) sl))
      in fold (\<lambda>idx sl'. sl'[fst intv + idx := replace_py ''PORT'' class_core (sl' ! (fst intv + idx))])
              port_idx sl)"

text \<open>Lines 570-581 for one net: the i-th \<open>PIN\<close> line is paired with the i-th \<open>END\<close> line.\<close>

definition class_core_net :: "string \<Rightarrow> string list \<Rightarrow> string list" where
  "class_core_net net sl =
     (let start = indices_where (is_in (''PIN '' @ net)) sl;
          end_idx = indices_where (is_in (''END '' @ net)) sl
      in fold class_core_interval (zip start end_idx) sl)"

text \<open>
  Lines 582-591 for one cell: \<open>start[0]\<close> raises IndexError when the macro is absent, and
  so does \<open>sl[start[0] + 1]\<close> when the macro header is the last line.
\<close>

definition force_spacer :: "string \<Rightarrow> string list \<Rightarrow> error + string list" where
  "force_spacer cell sl =
     (case index_py (indices_where (is_in (''MACRO '' @ cell)) sl) 0 of
        Inl e \<Rightarrow> Inl e
      | Inr start0 \<Rightarrow>
          (case index_py sl (start0 + 1) of
             Inl e \<Rightarrow> Inl e
           | Inr line \<Rightarrow> Inr (sl[start0 + 1 := replace_py ''AREAIO'' ''SPACER'' line])))"

fun force_spacers :: "string list \<Rightarrow> string list \<Rightarrow> error + string list" where
  "force_spacers [] sl = Inr sl"
| "force_spacers (cell # cells) sl =
     (case force_spacer cell sl of
        Inl e \<Rightarrow> Inl e
      | Inr sl' \<Rightarrow> force_spacers cells sl')"

text \<open>
  Lines 569-622 on the lines of the file.  The three lists of broken macros are empty in
  the source, so the loop over their \<open>zip\<close> does nothing.
\<close>

definition io_lef_lines :: "string list \<Rightarrow> error + string list" where
  "io_lef_lines sl =
     force_spacers
       [''sky130_ef_io__connect_vcchib_vccd_and_vswitch_vddio_slice_20um'',
        ''sky130_ef_io__disconnect_vccd_slice_5um'',
        ''sky130_ef_io__disconnect_vdda_slice_5um'']
       (fold class_core_net [''VCCD1'', ''VSSD1''] sl)"

definition setup_io_lefs :: "tech \<Rightarrow> filesystem \<Rightarrow> error + filesystem" where
  "setup_io_lefs st fs =
     (case path_setting (get_setting (settings st) ''technology.sky130.sky130A'') of
        Inl e \<Rightarrow> Inl e
      | Inr sky130A_path \<Rightarrow>
          let source_path =
                path_div (path_div (path_div (path_div sky130A_path ''libs.ref'') ''sky130_fd_io'') ''lef'')
                  ''sky130_ef_io.lef''
          in if node_at fs source_path = None
             then Inl (FileNotFoundError (''IO LEF not found: '' @ source_path))
             else
               (case makedirs fs (pathlib_str (cache_dir st)) of
                  Inl e \<Rightarrow> Inl e
                | Inr fs1 \<Rightarrow>
                    let dest_path = path_div (pathlib_str (cache_dir st)) ''sky130_ef_io.lef'' in
                    (case open_source_dest fs1 source_path dest_path of
                       Inl e \<Rightarrow> Inl e
                     | Inr content \<Rightarrow>
                         (case io_lef_lines (readlines content) of
                            Inl e \<Rightarrow> Inl e
                          | Inr sl \<Rightarrow> Inr (write_file fs1 dest_path (concat sl))))))"

subsection \<open>\<open>post_install_script\<close>\<close>

text \<open>
  Lines 392-402.  \<open>os.path.exists\<close> is asked about the string held by the setting; a
  setting that is not a string is reported as TypeError (a boolean, which Python would
  read as a file descriptor, is not told apart).  The flag \<open>use_sram22\<close> plays no part in
  the patch jobs.
\<close>

definition post_install_script :: "tech \<Rightarrow> filesystem \<Rightarrow> error + (tech \<times> filesystem)" where
  "post_install_script st0 fs =
     (let st1 = st0\<lparr> library_name := Some ''sky130_fd_sc_hd'' \<rparr> in
      case path_setting (get_setting (settings st1) ''technology.sky130.sram22_sky130_macros'') of
        Inl e \<Rightarrow> Inl e
      | Inr macros \<Rightarrow>
          let st = st1\<lparr> use_sram22 := Some (node_at fs macros \<noteq> None) \<rparr> in
          (case (if get_setting (settings st) ''technology.sky130.stdcell_library'' = SStr ''sky130_fd_sc_hd''
                 then (case setup_cdl st fs of
                         Inl e \<Rightarrow> Inl e
                       | Inr fs1 \<Rightarrow>
                           (case setup_verilog st fs1 of
                              Inl e \<Rightarrow> Inl e
                            | Inr fs2 \<Rightarrow> setup_techlef st fs2))
                 else Inr fs) of
             Inl e \<Rightarrow> Inl e
           | Inr fs3 \<Rightarrow>
               (case setup_io_lefs st fs3 of
                  Inl e \<Rightarrow> Inl e
                | Inr fs4 \<Rightarrow> Inr (st, fs4))))"

section \<open>Extension point hook registry\<close>

text \<open>
  A hook action as the host's \<open>make_pre_insertion_hook\<close> and \<open>make_post_insertion_hook\<close>
  build it: the target step, the side of the insertion and the function to run, which is
  named by its identifier in the source.
\<close>

datatype hook_location = InsertPreStep | InsertPostStep

record hook_action =
  target_name :: string
  location :: hook_location
  function_name :: string

definition make_pre_insertion_hook :: "string \<Rightarrow> string \<Rightarrow> hook_action" where
  "make_pre_insertion_hook step f =
     \<lparr> target_name = step, location = InsertPreStep, function_name = f \<rparr>"

definition make_post_insertion_hook :: "string \<Rightarrow> string \<Rightarrow> hook_action" where
  "make_post_insertion_hook step f =
     \<lparr> target_name = step, location = InsertPostStep, function_name = f \<rparr>"

text \<open>\<open>d.get(key, default)\<close> on a dictionary written as its list of items.\<close>

definition dict_get :: "(string \<times> 'v) list \<Rightarrow> string \<Rightarrow> 'v \<Rightarrow> 'v" where
  "dict_get d key dflt = (case map_of d key of None \<Rightarrow> dflt | Some v \<Rightarrow> v)"

definition get_tech_par_hooks :: "tech \<Rightarrow> string \<Rightarrow> error + hook_action list" where
  "get_tech_par_hooks st tool_name =
     (let hooks =
            [(''innovus'',
              [make_post_insertion_hook ''init_design'' ''sky130_innovus_settings'',
               make_pre_insertion_hook ''place_tap_cells'' ''sky130_add_endcaps'',
               make_pre_insertion_hook ''power_straps'' ''sky130_connect_nets'',
               make_pre_insertion_hook ''write_design'' ''sky130_connect_nets2''])]
      in Inr (dict_get hooks tool_name []))"

definition get_tech_drc_hooks :: "tech \<Rightarrow> string \<Rightarrow> error + hook_action list" where
  "get_tech_drc_hooks st tool_name =
     (let blackbox = truthy (get_setting (settings st) ''technology.sky130.drc_blackbox_srams'');
          calibre_hooks =
            (if blackbox
             then [make_post_insertion_hook ''generate_drc_run_file'' ''calibre_drc_blackbox_srams'']
             else []);
          pegasus_hooks =
            (if blackbox
             then [make_post_insertion_hook ''generate_drc_ctl_file'' ''pegasus_drc_blackbox_srams'']
             else []);
          hooks = [(''calibre'', calibre_hooks), (''pegasus'', pegasus_hooks)]
      in Inr (dict_get hooks tool_name []))"

text \<open>
  \<open>self.use_sram22\<close> is an attribute that \<open>post_install_script\<close> creates; reading it
  before raises AttributeError.
\<close>

definition get_tech_lvs_hooks :: "tech \<Rightarrow> string \<Rightarrow> error + hook_action list" where
  "get_tech_lvs_hooks st tool_name =
     (case use_sram22 st of
        None \<Rightarrow> Inl AttributeError
      | Some sram22 \<Rightarrow>
          let blackbox = truthy (get_setting (settings st) ''technology.sky130.lvs_blackbox_srams'');
              calibre_hooks =
                [make_post_insertion_hook ''generate_lvs_run_file'' ''setup_calibre_lvs_deck''] @
                (if sram22
                 then [make_post_insertion_hook ''generate_lvs_run_file'' ''sram22_lvs_recognize_gates_all'']
                 else []) @
                (if blackbox
                 then [make_post_insertion_hook ''generate_lvs_run_file'' ''calibre_lvs_blackbox_srams'']
                 else []);
              pegasus_hooks =
                (if blackbox
                 then [make_post_insertion_hook ''generate_lvs_ctl_file'' ''pegasus_lvs_blackbox_srams'']
                 else []);
              hooks = [(''calibre'', calibre_hooks), (''pegasus'', pegasus_hooks)]
          in Inr (dict_get hooks tool_name []))"

section \<open>Example inputs\<close>

text \<open>
  A small installation used to run the model: two IO corner files, one corner file for
  each standard-cell family, and a settings store that selects the family \<open>slib\<close>.
\<close>

definition example_env :: environment where
  "example_env =
     \<lparr> listdir = (\<lambda>path. if path = ''/pdk/libs.ref/sky130_fd_io/lib''
                          then Inr [''sky130_fd_io__top_gpiov2_tt_025C_1v80_3v30.lib'',
                                    ''sky130_ef_io__vccd_lvc_clamped_pad_ff_n40C_1v95_5v50.lib'']
                          else if path = ''/pdk/libs.ref/sky130_fd_sc_hd/lib''
                          then Inr [''sky130_fd_sc_hd__tt_025C_1v80.lib'']
                          else if path = ''/scl/lib''
                          then Inr [''sky130_tt_1.8_25_nldm.lib'']
                          else Inl (FileNotFoundError path)),
       get_metals = (\<lambda>path. Inr []) \<rparr>"

definition example_tech_of :: "string \<Rightarrow> tech" where
  "example_tech_of slib =
     \<lparr> settings = (\<lambda>key. if key = ''technology.sky130.stdcell_library'' then SStr slib
                          else if key = ''technology.sky130.sky130A'' then SStr ''/pdk''
                          else if key = ''technology.sky130.sky130_scl'' then SStr ''/scl''
                          else if key = ''technology.sky130.sky130_cds'' then SStr ''/cds''
                          else if key = ''synthesis.clock_gating_mode'' then SStr ''auto''
                          else if key = ''technology.sky130.sram22_sky130_macros'' then SStr ''/sram22''
                          else if key = ''vlsi.core.lvs_tool'' then SStr ''hammer.lvs.calibre''
                          else SBool True),
       cache_dir = ''cache'', config = None,
       library_name = Some ''sky130_fd_sc_hd'', use_sram22 = Some True \<rparr>"


section \<open>Notions used to state the properties\<close>

text \<open>Whether the loop body appended a record, and the speed class of that record.\<close>

definition yields_record :: "error + library option \<Rightarrow> bool" where
  "yields_record r = (case r of Inr (Some lib) \<Rightarrow> True | _ \<Rightarrow> False)"

definition entry_speed :: "error + library option \<Rightarrow> string option" where
  "entry_speed r =
     (case r of
        Inr (Some lib) \<Rightarrow> map_option nmos (corner lib)
      | _ \<Rightarrow> None)"

text \<open>The file name without its \<open>.lib\<close> (the variable \<open>tmp\<close> in each loop body).\<close>

definition corner_file_stem :: "string \<Rightarrow> string" where
  "corner_file_stem cornerfilename = replace_py ''.lib'' '''' cornerfilename"

text \<open>
  The process tokens of an IO corner file name, in order: the occurrences of \<open>_ff\<close>,
  \<open>_ss\<close> and \<open>_tt\<close> read from the left without overlap.
\<close>

fun corner_tokens :: "string \<Rightarrow> string list" where
  "corner_tokens [] = []"
| "corner_tokens (c # cs) =
     (if prefix ''_ff'' (c # cs) then ''ff'' # corner_tokens (drop 3 (c # cs))
      else if prefix ''_ss'' (c # cs) then ''ss'' # corner_tokens (drop 3 (c # cs))
      else if prefix ''_tt'' (c # cs) then ''tt'' # corner_tokens (drop 3 (c # cs))
      else corner_tokens cs)"

text \<open>The three capture groups that \<open>re.split\<close> reports for one process token.\<close>

definition groups_of :: "string \<Rightarrow> string option list" where
  "groups_of p =
     (if p = ''ff'' then [Some ''ff'', None, None]
      else if p = ''ss'' then [None, Some ''ss'', None]
      else [None, None, Some ''tt''])"

text \<open>
  The process-corner code of a standard-cell corner file name: the first token after the
  double underscore (\<open>sky130_fd_sc_hd\<close>), or the first token after the prefix
  \<open>sky130_\<close> has been removed (\<open>sky130_scl\<close>).
\<close>

definition hd_corner_code :: "string \<Rightarrow> string" where
  "hd_corner_code cornerfilename =
     hd (split_py ''_'' (split_py ''__'' (corner_file_stem cornerfilename) ! 1))"

definition scl_corner_code :: "string \<Rightarrow> string" where
  "scl_corner_code cornerfilename =
     hd (split_py ''_'' (replace_py ''sky130_'' '''' (corner_file_stem cornerfilename)))"

text \<open>
  The rewriting of one reference line under a canonical name, and the harmonization of a
  whole file read as one pass from the top: a declaration line is kept and makes its
  captured name the current canonical name; any other line is rewritten under the current
  canonical name, if there is one.
\<close>

definition rewrite_refs :: "string \<Rightarrow> string \<Rightarrow> string" where
  "rewrite_refs canonical line =
     fold (\<lambda>elem l. if elem \<noteq> canonical then replace_py elem canonical l else l)
          (findall_capture line) line"

fun harmonize_spec :: "string option \<Rightarrow> string list \<Rightarrow> string list" where
  "harmonize_spec cur [] = []"
| "harmonize_spec cur (l # ls) =
     (if is_sleep_decl l then l # harmonize_spec (Some (hd (findall_capture l))) ls
      else (case cur of None \<Rightarrow> l | Some canonical \<Rightarrow> rewrite_refs canonical l)
           # harmonize_spec cur ls)"

text \<open>
  Example source files: a library Verilog with the malformed timing arc inside the
  bleeder block, the same file as a vendor would ship it once the arc is repaired, an IO
  LEF, and an installation that holds them.
\<close>

definition example_verilog :: string where
  "example_verilog =
     ''module sky130_fd_sc_hd__lpflow_bleeder_1 (SHORT, VPWR);\<newline>'' @
     ''`ifndef SKY130_FD_SC_HD__LPFLOW_BLEEDER_1_TIMING_V\<newline>'' @
     ''specify\<newline>'' @
     ''(SHORT => VPWR) = (0:0:0,0:0:0,0:0:0,0:0:0,0:0:0,0:0:0);\<newline>'' @
     ''endspecify\<newline>'' @
     ''`endif\<newline>'' @
     ''  wire SLEEP1B_delayed;\<newline>'' @
     ''  and (X, SLEEP1_B_delayed, A);\<newline>'' @
     ''  buf (Y, SLEEP1B_delayed);\<newline>'' @
     ''  or (Z, Sleep1Bdelay);\<newline>''"

definition example_verilog_fixed :: string where
  "example_verilog_fixed =
     ''module sky130_fd_sc_hd__lpflow_bleeder_1 (SHORT, VPWR);\<newline>'' @
     ''`ifndef SKY130_FD_SC_HD__LPFLOW_BLEEDER_1_TIMING_V\<newline>'' @
     ''specify\<newline>'' @
     ''(SHORT => VPWR) = (0:0:0,0:0:0,0:0:0);\<newline>'' @
     ''endspecify\<newline>'' @
     ''`endif\<newline>''"

definition example_io_lef :: string where
  "example_io_lef =
     ''MACRO sky130_ef_io__connect_vcchib_vccd_and_vswitch_vddio_slice_20um\<newline>'' @
     ''  CLASS PAD AREAIO ;\<newline>'' @
     ''MACRO sky130_ef_io__disconnect_vccd_slice_5um\<newline>'' @
     ''  CLASS PAD AREAIO ;\<newline>'' @
     ''MACRO sky130_ef_io__disconnect_vdda_slice_5um\<newline>'' @
     ''  CLASS PAD AREAIO ;\<newline>'' @
     ''  PIN VCCD1\<newline>'' @
     ''    PORT\<newline>'' @
     ''      LAYER met3 ;\<newline>'' @
     ''    END\<newline>'' @
     ''  END VCCD1\<newline>'' @
     ''  PIN AMUXBUS_A\<newline>'' @
     ''    PORT\<newline>'' @
     ''  END AMUXBUS_A\<newline>''"

definition example_fs :: "string \<Rightarrow> filesystem" where
  "example_fs verilog =
     \<lparr> resolve = (\<lambda>path. path),
       nodes =
         [''/pdk/libs.ref/sky130_fd_sc_hd/cdl/sky130_fd_sc_hd.cdl'' \<mapsto>
            File ''M0 d g s b nfet_01v8_lvt w=1\<newline>M1 d g s b pfet_01v8_hvt w=1\<newline>'',
          ''/pdk/libs.ref/sky130_fd_sc_hd/verilog/sky130_fd_sc_hd.v'' \<mapsto> File verilog,
          ''/pdk/libs.ref/sky130_fd_sc_hd/verilog/primitives.v'' \<mapsto>
            File ''`default_nettype none\<newline>'',
          ''/pdk/libs.ref/sky130_fd_sc_hd/techlef/sky130_fd_sc_hd__nom.tlef'' \<mapsto>
            File ''LAYER pwell\<newline>END pwell\<newline>'',
          ''/pdk/libs.ref/sky130_fd_io/lef/sky130_ef_io.lef'' \<mapsto> File example_io_lef] \<rparr>"

text \<open>
  The same installation with the cached netlist a link to the vendor's netlist: the two
  spellings name one file.
\<close>

definition example_fs_linked :: filesystem where
  "example_fs_linked =
     (example_fs example_verilog)
       \<lparr> resolve := (\<lambda>path. if path = ''cache/sky130_fd_sc_hd.cdl''
                              then ''/pdk/libs.ref/sky130_fd_sc_hd/cdl/sky130_fd_sc_hd.cdl''
                              else path) \<rparr>"

text \<open>
  The number of positions of \<open>s\<close> at which \<open>pat\<close> starts, and whether every \<open>PORT\<close> of a
  line is immediately followed by the inserted class declaration.
\<close>

fun count_occurrences :: "string \<Rightarrow> string \<Rightarrow> nat" where
  "count_occurrences pat [] = 0"
| "count_occurrences pat (c # cs) =
     (if prefix pat (c # cs) then 1 else 0) + count_occurrences pat cs"

fun all_ports_core :: "string \<Rightarrow> bool" where
  "all_ports_core [] = True"
| "all_ports_core (c # cs) =
     ((if prefix ''PORT'' (c # cs) then prefix class_core (c # cs) else True) \<and> all_ports_core cs)"

text \<open>
  The pin blocks of a net as \<open>setup_io_lefs\<close> pairs them (the i-th \<open>PIN\<close> line with the
  i-th \<open>END\<close> line), and the source and destination of the IO LEF job.
\<close>

definition pin_blocks :: "string \<Rightarrow> string list \<Rightarrow> (nat \<times> nat) list" where
  "pin_blocks net sl =
     zip (indices_where (is_in (''PIN '' @ net)) sl) (indices_where (is_in (''END '' @ net)) sl)"

definition io_lef_source :: "string \<Rightarrow> string" where
  "io_lef_source sky130A_path =
     path_div (path_div (path_div (path_div sky130A_path ''libs.ref'') ''sky130_fd_io'') ''lef'')
       ''sky130_ef_io.lef''"

definition io_lef_dest :: "tech \<Rightarrow> string" where
  "io_lef_dest st = path_div (pathlib_str (cache_dir st)) ''sky130_ef_io.lef''"

text \<open>
  A patch job in general: the message of the missing-source error, the source path, the
  destination path and the edit of the text read.  \<open>patch_job\<close> is the sequence every
  \<open>setup_\<close> function goes through (existence check, \<open>makedirs\<close>, opening both files,
  edit, write); \<open>run_jobs\<close> runs jobs one after the other and stops at the first raise.
\<close>

type_synonym job = "string \<times> string \<times> string \<times> (string \<Rightarrow> error + string)"

definition patch_job :: "string \<Rightarrow> job \<Rightarrow> filesystem \<Rightarrow> error + filesystem" where
  "patch_job cache j fs =
     (case j of (msg, source_path, dest_path, edit) \<Rightarrow>
        if node_at fs source_path = None then Inl (FileNotFoundError (msg @ source_path))
        else
          (case makedirs fs cache of
             Inl e \<Rightarrow> Inl e
           | Inr fs1 \<Rightarrow>
               (case open_source_dest fs1 source_path dest_path of
                  Inl e \<Rightarrow> Inl e
                | Inr content \<Rightarrow>
                    (case edit content of
                       Inl e \<Rightarrow> Inl e
                     | Inr text \<Rightarrow> Inr (write_file fs1 dest_path text)))))"

fun run_jobs :: "string \<Rightarrow> job list \<Rightarrow> filesystem \<Rightarrow> error + filesystem" where
  "run_jobs cache [] fs = Inr fs"
| "run_jobs cache (j # js) fs =
     (case patch_job cache j fs of
        Inl e \<Rightarrow> Inl e
      | Inr fs1 \<Rightarrow> run_jobs cache js fs1)"

definition job_source :: "job \<Rightarrow> string" where
  "job_source j = fst (snd j)"

definition job_dest :: "job \<Rightarrow> string" where
  "job_dest j = fst (snd (snd j))"

definition job_edit :: "job \<Rightarrow> string \<Rightarrow> error + string" where
  "job_edit j = snd (snd (snd j))"

text \<open>
  The source is pristine for a list of jobs when none of their sources is the same file
  as one of their destinations; \<open>unaliased\<close> asks in addition that the destinations are
  different files.  Both are about the files that the paths name, not about the spelling
  of the paths.
\<close>

definition unaliased :: "filesystem \<Rightarrow> job list \<Rightarrow> bool" where
  "unaliased fs js =
     (distinct (map (\<lambda>j. resolve fs (job_dest j)) js) \<and>
      list_all (\<lambda>j. list_all (\<lambda>j'. resolve fs (job_source j) \<noteq> resolve fs (job_dest j')) js) js)"

text \<open>
  What a run of job \<open>j\<close> from \<open>fs\<close> to \<open>fs'\<close> has to leave for the destination to be
  regenerated from the source: the source was a file, it is the same file afterwards,
  and the destination holds the job's edit of the text of the source, whatever the
  destination held or did not hold before.
\<close>

definition regenerated :: "job \<Rightarrow> filesystem \<Rightarrow> filesystem \<Rightarrow> bool" where
  "regenerated j fs fs' =
     (case node_at fs (job_source j) of
        Some (File content) \<Rightarrow>
          node_at fs' (job_source j) = Some (File content) \<and>
          (case job_edit j (universal_newlines content) of
             Inl e \<Rightarrow> False
           | Inr body \<Rightarrow> node_at fs' (job_dest j) = Some (File body))
      | _ \<Rightarrow> False)"

text \<open>The five jobs of the plugin, and the jobs \<open>post_install_script\<close> runs, in order.\<close>

definition cdl_devices :: "setting \<Rightarrow> string \<times> string" where
  "cdl_devices lvs_tool =
     (if lvs_tool = SStr ''hammer.lvs.calibre'' then (''phighvt'', ''nshort'')
      else if lvs_tool = SStr ''hammer.lvs.netgen''
      then (''sky130_fd_pr__pfet_01v8_hvt'', ''sky130_fd_pr__nfet_01v8'')
      else (''pfet_01v8_hvt'', ''nfet_01v8''))"

definition cdl_job :: "tech \<Rightarrow> string \<Rightarrow> string \<Rightarrow> job" where
  "cdl_job st setting_dir lib =
     (''CDL not found: '',
      path_div (path_div (path_div (path_div setting_dir ''libs.ref'') lib) ''cdl'') (lib @ ''.cdl''),
      path_div (pathlib_str (cache_dir st)) (lib @ ''.cdl''),
      \<lambda>content. Inr (''*.SCALE MICRON\<newline>'' @
         concat (map (cdl_line (fst (cdl_devices (get_setting (settings st) ''vlsi.core.lvs_tool'')))
                               (snd (cdl_devices (get_setting (settings st) ''vlsi.core.lvs_tool''))))
                     (readlines content))))"

definition verilog_edit :: "string \<Rightarrow> error + string" where
  "verilog_edit content =
     (case hack_specify (readlines (universal_newlines (concat (map verilog_line (readlines content))))) of
        Inl e \<Rightarrow> Inl e
      | Inr sl1 \<Rightarrow>
          (case harmonize sl1 of
             Inl e \<Rightarrow> Inl e
           | Inr sl2 \<Rightarrow> Inr (concat sl2)))"

definition verilog_job :: "tech \<Rightarrow> string \<Rightarrow> string \<Rightarrow> job" where
  "verilog_job st setting_dir lib =
     (''Verilog not found: '',
      path_div (path_div (path_div (path_div setting_dir ''libs.ref'') lib) ''verilog'') (lib @ ''.v''),
      path_div (pathlib_str (cache_dir st)) (lib @ ''.v''),
      verilog_edit)"

definition primitives_job :: "tech \<Rightarrow> string \<Rightarrow> string \<Rightarrow> job" where
  "primitives_job st setting_dir lib =
     (''Verilog not found: '',
      path_div (path_div (path_div (path_div setting_dir ''libs.ref'') lib) ''verilog'') ''primitives.v'',
      path_div (pathlib_str (cache_dir st)) ''primitives.v'',
      \<lambda>content. Inr (concat (map (replace_py ''`default_nettype none'' ''`default_nettype wire'')
                                  (readlines content))))"

definition techlef_job :: "tech \<Rightarrow> string \<Rightarrow> string \<Rightarrow> job" where
  "techlef_job st setting_dir lib =
     (''Tech-LEF not found: '',
      path_div (path_div (path_div (path_div setting_dir ''libs.ref'') lib) ''techlef'') (lib @ ''__nom.tlef''),
      path_div (pathlib_str (cache_dir st)) (lib @ ''__nom.tlef''),
      \<lambda>content. Inr (concat (map techlef_line (readlines content))))"

definition io_lef_job :: "tech \<Rightarrow> string \<Rightarrow> job" where
  "io_lef_job st sky130A_path =
     (''IO LEF not found: '',
      io_lef_source sky130A_path,
      io_lef_dest st,
      \<lambda>content. case io_lef_lines (readlines content) of
                   Inl e \<Rightarrow> Inl e
                 | Inr sl \<Rightarrow> Inr (concat sl))"

definition install_jobs :: "tech \<Rightarrow> string \<Rightarrow> job list" where
  "install_jobs st dir =
     (if get_setting (settings st) ''technology.sky130.stdcell_library'' = SStr ''sky130_fd_sc_hd''
      then [cdl_job st dir ''sky130_fd_sc_hd'', verilog_job st dir ''sky130_fd_sc_hd'',
            primitives_job st dir ''sky130_fd_sc_hd'', techlef_job st dir ''sky130_fd_sc_hd'']
      else []) @ [io_lef_job st dir]"

section \<open>Verified properties\<close>

subsection \<open>Hook registry\<close>

lemma dict_get_absent: "key \<notin> fst ` set d \<Longrightarrow> dict_get d key dflt = dflt"
  by (simp add: dict_get_def map_of_eq_None_iff[THEN iffD2])

text \<open>
  C10: a tool name that is not a key of the hook dictionary gets the empty list from
  \<open>get_tech_par_hooks\<close>, \<open>get_tech_drc_hooks\<close> and \<open>get_tech_lvs_hooks\<close>; no name makes
  the lookup raise.  (\<open>get_tech_lvs_hooks\<close> reads the attribute \<open>use_sram22\<close>, which exists
  once \<open>post_install_script\<close> has run, whatever the tool name.)
\<close>

theorem hook_lookup_unknown_tool:
  "(tool_name \<noteq> ''innovus'' \<longrightarrow> get_tech_par_hooks st tool_name = Inr []) \<and>
   (tool_name \<noteq> ''calibre'' \<and> tool_name \<noteq> ''pegasus'' \<longrightarrow>
      get_tech_drc_hooks st tool_name = Inr [] \<and>
      (use_sram22 st \<noteq> None \<longrightarrow> get_tech_lvs_hooks st tool_name = Inr []))"
  by (auto simp: get_tech_par_hooks_def get_tech_drc_hooks_def get_tech_lvs_hooks_def
        Let_def dict_get_absent)

theorem hook_lookup_unknown_tool_witness:
  "''openroad'' \<noteq> ''innovus'' \<and> ''openroad'' \<noteq> ''calibre'' \<and> ''openroad'' \<noteq> ''pegasus'' \<and>
   use_sram22 (example_tech_of ''sky130_fd_sc_hd'') \<noteq> None \<and>
   get_tech_par_hooks (example_tech_of ''sky130_fd_sc_hd'') ''openroad'' = Inr [] \<and>
   get_tech_drc_hooks (example_tech_of ''sky130_fd_sc_hd'') ''openroad'' = Inr [] \<and>
   get_tech_lvs_hooks (example_tech_of ''sky130_fd_sc_hd'') ''openroad'' = Inr []"
  using hook_lookup_unknown_tool [of "''openroad''" "example_tech_of ''sky130_fd_sc_hd''"]
  by (simp add: example_tech_of_def)


subsection \<open>Descriptor generation\<close>

lemma gen_config_hd_settings: "settings (fst (gen_config_hd env st a libs)) = settings st"
  by (simp add: gen_config_hd_def Let_def split: sum.splits)

lemma gen_config_scl_settings:
  "settings (fst (gen_config_scl env st scl cds libs)) =
     set_setting (settings st) ''synthesis.clock_gating_mode'' (SStr '''')"
  by (simp add: gen_config_scl_def Let_def split: sum.splits)

lemma gen_config_scl_reached:
  "get_setting (settings st) ''technology.sky130.stdcell_library'' = SStr ''sky130_scl'' \<Longrightarrow>
   snd (gen_config env st) = None \<Longrightarrow>
   \<exists>libs. gen_config env st =
     gen_config_scl env st (get_setting (settings st) ''technology.sky130.sky130_scl'')
       (get_setting (settings st) ''technology.sky130.sky130_cds'') libs"
  by (auto simp add: gen_config_def Let_def split: sum.splits)

text \<open>
  C9: with the family \<open>sky130_fd_sc_hd\<close> \<open>gen_config\<close> leaves the settings store as it
  was; with the family \<open>sky130_scl\<close> a call that returns has set
  \<open>synthesis.clock_gating_mode\<close> to the empty string; and in every case no other key of the
  store is changed.
\<close>

theorem gen_config_clock_gating_write:
  "(get_setting (settings st) ''technology.sky130.stdcell_library'' = SStr ''sky130_fd_sc_hd'' \<longrightarrow>
      settings (fst (gen_config env st)) = settings st) \<and>
   (get_setting (settings st) ''technology.sky130.stdcell_library'' = SStr ''sky130_scl'' \<and>
    snd (gen_config env st) = None \<longrightarrow>
      settings (fst (gen_config env st)) =
        set_setting (settings st) ''synthesis.clock_gating_mode'' (SStr '''')) \<and>
   (\<forall>key. key \<noteq> ''synthesis.clock_gating_mode'' \<longrightarrow>
      get_setting (settings (fst (gen_config env st))) key = get_setting (settings st) key)"
proof (intro conjI impI allI)
  assume "get_setting (settings st) ''technology.sky130.stdcell_library'' = SStr ''sky130_fd_sc_hd''"
  then show "settings (fst (gen_config env st)) = settings st"
    by (simp add: gen_config_def Let_def gen_config_hd_settings split: sum.splits)
next
  assume "get_setting (settings st) ''technology.sky130.stdcell_library'' = SStr ''sky130_scl'' \<and>
    snd (gen_config env st) = None"
  then obtain libs where "gen_config env st =
     gen_config_scl env st (get_setting (settings st) ''technology.sky130.sky130_scl'')
       (get_setting (settings st) ''technology.sky130.sky130_cds'') libs"
    using gen_config_scl_reached by blast
  then show "settings (fst (gen_config env st)) =
        set_setting (settings st) ''synthesis.clock_gating_mode'' (SStr '''')"
    by (simp add: gen_config_scl_settings)
next
  fix key :: string
  assume "key \<noteq> ''synthesis.clock_gating_mode''"
  then show "get_setting (settings (fst (gen_config env st))) key = get_setting (settings st) key"
    by (simp add: gen_config_def Let_def gen_config_hd_settings gen_config_scl_settings
          get_setting_def set_setting_def split: sum.splits)
qed


theorem gen_config_clock_gating_write_witness:
  "get_setting (settings (example_tech_of ''sky130_fd_sc_hd'')) ''technology.sky130.stdcell_library''
     = SStr ''sky130_fd_sc_hd'' \<and>
   settings (fst (gen_config example_env (example_tech_of ''sky130_fd_sc_hd'')))
     = settings (example_tech_of ''sky130_fd_sc_hd'') \<and>
   get_setting (settings (example_tech_of ''sky130_scl'')) ''technology.sky130.stdcell_library''
     = SStr ''sky130_scl'' \<and>
   snd (gen_config example_env (example_tech_of ''sky130_scl'')) = None \<and>
   settings (fst (gen_config example_env (example_tech_of ''sky130_scl'')))
     = set_setting (settings (example_tech_of ''sky130_scl'')) ''synthesis.clock_gating_mode'' (SStr [])"
proof -
  have a: "get_setting (settings (example_tech_of ''sky130_fd_sc_hd'')) ''technology.sky130.stdcell_library''
     = SStr ''sky130_fd_sc_hd''"
    by (simp add: example_tech_of_def get_setting_def)
  have b: "get_setting (settings (example_tech_of ''sky130_scl'')) ''technology.sky130.stdcell_library''
     = SStr ''sky130_scl''"
    by (simp add: example_tech_of_def get_setting_def)
  have c: "snd (gen_config example_env (example_tech_of ''sky130_scl'')) = None"
    by code_simp
  show ?thesis
    using a b c
      gen_config_clock_gating_write [of "example_tech_of ''sky130_fd_sc_hd''" example_env]
      gen_config_clock_gating_write [of "example_tech_of ''sky130_scl''" example_env]
    by blast
qed

subsection \<open>Corner filename parser\<close>

lemma corner_tokens_set: "set (corner_tokens s) \<subseteq> {''ff'', ''ss'', ''tt''}"
  by (induction s rule: corner_tokens.induct) auto

lemma re_split_aux_nonempty: "re_split_aux acc s \<noteq> []"
  by (induction acc s rule: re_split_aux.induct) auto

lemma re_split_aux_Nil_tokens:
  "corner_tokens s = [] \<Longrightarrow> re_split_aux acc s = [Some (rev acc @ s)]"
  by (induction acc s rule: re_split_aux.induct) (auto split: if_splits)

lemma re_split_aux_Cons_tokens:
  "corner_tokens s = p # ps \<Longrightarrow>
   \<exists>t s'. re_split_aux acc s = Some t # groups_of p @ re_split_aux [] s' \<and> corner_tokens s' = ps"
proof (induction acc s rule: re_split_aux.induct)
  case (1 acc)
  then show ?case by simp
next
  case (2 acc c cs)
  show ?case
  proof (cases "prefix ''_ff'' (c # cs) \<or> prefix ''_ss'' (c # cs) \<or> prefix ''_tt'' (c # cs)")
    case True
    with 2(5) show ?thesis
      by (auto simp: groups_of_def split: if_splits)
  next
    case False
    then have n: "\<not> prefix ''_ff'' (c # cs)" "\<not> prefix ''_ss'' (c # cs)" "\<not> prefix ''_tt'' (c # cs)"
      by blast+
    from 2(5) n have "corner_tokens cs = p # ps"
      by (simp del: prefix_code)
    from 2(4)[OF n this] n show ?thesis
      by (simp del: prefix_code)
  qed
qed

lemma re_split_aux_hd: "\<exists>t. hd (re_split_aux acc s) = Some t"
  by (induction acc s rule: re_split_aux.induct) auto

lemma re_split_aux_last: "\<exists>t. last (re_split_aux acc s) = Some t"
  by (induction acc s rule: re_split_aux.induct) (auto simp: re_split_aux_nonempty)

lemma groups_of_length: "length (groups_of p) = 3"
  by (simp add: groups_of_def)

lemma corner_speed_groups:
  "p \<in> {''ff'', ''ss'', ''tt''} \<Longrightarrow> corner_speed (groups_of p @ rest) = Inr (speed_name p)"
  by (auto simp: corner_speed_def groups_of_def)

lemma process_no_token:
  assumes "corner_tokens s = []"
  shows "butlast (tl (re_split_aux acc s)) = []"
  using re_split_aux_Nil_tokens[OF assms, of acc] by simp

lemma process_one_token:
  assumes "corner_tokens s = p # ps"
  shows "\<exists>rest. butlast (tl (re_split_aux acc s)) = groups_of p @ rest"
proof -
  from re_split_aux_Cons_tokens[OF assms, of acc] obtain t s' where
    e: "re_split_aux acc s = Some t # groups_of p @ re_split_aux [] s'" by blast
  have "butlast (groups_of p @ re_split_aux [] s') = groups_of p @ butlast (re_split_aux [] s')"
    by (simp add: butlast_append re_split_aux_nonempty)
  with e show ?thesis by simp
qed

lemma process_two_tokens:
  assumes "corner_tokens s = p # q # toks"
  shows "\<exists>t rest. butlast (tl (re_split_aux acc s)) = groups_of p @ Some t # groups_of q @ rest"
proof -
  from re_split_aux_Cons_tokens[OF assms, of acc] obtain t s' where
    e: "re_split_aux acc s = Some t # groups_of p @ re_split_aux [] s'"
    and t: "corner_tokens s' = q # toks" by blast
  from re_split_aux_Cons_tokens[OF t, of "[]"] obtain t' s'' where
    e': "re_split_aux [] s' = Some t' # groups_of q @ re_split_aux [] s''" by blast
  have "butlast (groups_of p @ Some t' # groups_of q @ re_split_aux [] s'') =
        groups_of p @ Some t' # groups_of q @ butlast (re_split_aux [] s'')"
    by (simp add: butlast_append re_split_aux_nonempty)
  with e e' show ?thesis by simp
qed

lemma cross_corner_groups:
  "p \<in> {''ff'', ''ss'', ''tt''} \<Longrightarrow> q \<in> {''ff'', ''ss'', ''tt''} \<Longrightarrow>
   cross_corner (groups_of p @ Some t # groups_of q @ rest) = (p \<noteq> q)"
  by (auto simp: cross_corner_def groups_of_def)

lemma split_corner_name_Inr:
  assumes "split_corner_name f = Inr (cell, process, tv)"
  shows "(\<exists>c. cell = Some c) \<and> process = butlast (tl (re_split_aux [] (corner_file_stem f)))"
proof -
  obtain t where h: "hd (re_split_aux [] (corner_file_stem f)) = Some t"
    using re_split_aux_hd by blast
  from assms have "cell = hd (re_split_aux [] (corner_file_stem f))"
    and "process = butlast (tl (re_split_aux [] (corner_file_stem f)))"
    by (auto simp: split_corner_name_def Let_def re_split_corner_def corner_file_stem_def
             split: option.splits)
  with h show ?thesis by simp
qed

lemma io_library_Some: "\<exists>lib. io_library f (Some c) speed temp vdd = Inr lib"
  by (simp add: io_library_def Let_def split: prod.splits)

lemma io_library_entry_after_speed:
  assumes "\<not> is_in ''nointpwr'' f"
    and "split_corner_name f = Inr (Some c, process, tv)"
    and "\<not> cross_corner process"
    and "corner_speed process = Inr speed"
  shows "(io_library_entry f = Inr None \<longleftrightarrow> voltage_filtered tv = Inr True) \<and>
         (yields_record (io_library_entry f) \<longleftrightarrow> voltage_filtered tv = Inr False) \<and>
         (yields_record (io_library_entry f) \<longrightarrow> entry_speed (io_library_entry f) = Some speed)"
proof (cases "length tv < 3")
  case True
  then have "voltage_filtered tv = Inl IndexError"
    by (simp add: voltage_filtered_def index_py_def)
  with assms True show ?thesis
    by (auto simp: io_library_entry_def yields_record_def index_py_def Let_def split: sum.splits)
next
  case False
  obtain lib where l: "io_library f (Some c) speed (parse_temp (tv ! 0))
          (join_py ''.'' (split_py ''v'' (tv ! 1)) @ '' V'') = Inr lib"
    using io_library_Some by blast
  then have n: "nmos (the (corner lib)) = speed \<and> corner lib \<noteq> None"
    by (auto simp: io_library_def Let_def split: prod.splits)
  have "\<exists>b. voltage_filtered tv = Inr b"
    using False by (auto simp add: voltage_filtered_def index_py_def)
  then obtain b where v: "voltage_filtered tv = Inr b" by blast
  have e: "io_library_entry f = (if b then Inr None else Inr (Some lib))"
    using assms False l v
    by (cases tv) (auto simp add: io_library_entry_def index_py_def Let_def split: bool.splits)
  show ?thesis
    using n by (cases b) (auto simp: e v yields_record_def entry_speed_def)
qed

text \<open>
  C1 (as the code has it): an IO corner file that reaches the voltage filter (it is not a
  \<open>nointpwr\<close> file, has a process token, passes the cross-corner filter and has at least
  three temperature and voltage tokens) is excluded exactly when its third token starts
  with \<open>1\<close>, or it has four tokens and the fourth starts with \<open>1\<close>; every other such file
  yields a library record.
\<close>

theorem secondary_voltage_filter:
  assumes "\<not> is_in ''nointpwr'' f"
    and "split_corner_name f = Inr (cell, process, temp_volt)"
    and "process \<noteq> []"
    and "\<not> cross_corner process"
    and "3 \<le> length temp_volt"
  shows "(io_library_entry f = Inr None \<longleftrightarrow>
            startswith (temp_volt ! 2) ''1'' \<or>
            (length temp_volt = 4 \<and> startswith (temp_volt ! 3) ''1'')) \<and>
         (io_library_entry f \<noteq> Inr None \<longrightarrow> yields_record (io_library_entry f))"
proof -
  from split_corner_name_Inr[OF assms(2)] obtain c where
    c: "cell = Some c" and p: "process = butlast (tl (re_split_aux [] (corner_file_stem f)))"
    by blast
  from p assms(3) have "corner_tokens (corner_file_stem f) \<noteq> []"
    using process_no_token by fastforce
  then obtain tok toks where t: "corner_tokens (corner_file_stem f) = tok # toks"
    by (cases "corner_tokens (corner_file_stem f)") auto
  then have "tok \<in> {''ff'', ''ss'', ''tt''}"
    using corner_tokens_set[of "corner_file_stem f"] by auto
  moreover from process_one_token[OF t, of "[]"] p obtain rest where
    "process = groups_of tok @ rest" by auto
  ultimately have s: "corner_speed process = Inr (speed_name tok)"
    by (simp add: corner_speed_groups)
  note k = io_library_entry_after_speed[OF assms(1) assms(2)[unfolded c] assms(4) s]
  have v: "voltage_filtered temp_volt = Inr (startswith (temp_volt ! 2) ''1'' \<or>
            (length temp_volt = 4 \<and> startswith (temp_volt ! 3) ''1''))"
    using assms(5) by (simp add: voltage_filtered_def index_py_def)
  from k v show ?thesis by auto
qed

theorem secondary_voltage_filter_witness:
  "\<not> is_in ''nointpwr'' ''sky130_fd_io__top_gpiov2_tt_025C_1v80_3v30.lib'' \<and>
   split_corner_name ''sky130_fd_io__top_gpiov2_tt_025C_1v80_3v30.lib'' =
     Inr (Some ''sky130_fd_io__top_gpiov2'', [None, None, Some ''tt''], [''025C'', ''1v80'', ''3v30'']) \<and>
   \<not> cross_corner [None, None, Some ''tt''] \<and>
   \<not> startswith ([''025C'', ''1v80'', ''3v30''] ! 2) ''1'' \<and>
   yields_record (io_library_entry ''sky130_fd_io__top_gpiov2_tt_025C_1v80_3v30.lib'') \<and>
   split_corner_name ''sky130_fd_io__top_gpiov2_tt_025C_1v80_1v65.lib'' =
     Inr (Some ''sky130_fd_io__top_gpiov2'', [None, None, Some ''tt''], [''025C'', ''1v80'', ''1v65'']) \<and>
   startswith ([''025C'', ''1v80'', ''1v65''] ! 2) ''1'' \<and>
   io_library_entry ''sky130_fd_io__top_gpiov2_tt_025C_1v80_1v65.lib'' = Inr None"
proof -
  have a: "\<not> is_in ''nointpwr'' ''sky130_fd_io__top_gpiov2_tt_025C_1v80_3v30.lib''"
    by code_simp
  have b: "split_corner_name ''sky130_fd_io__top_gpiov2_tt_025C_1v80_3v30.lib'' =
     Inr (Some ''sky130_fd_io__top_gpiov2'', [None, None, Some ''tt''], [''025C'', ''1v80'', ''3v30''])"
    by code_simp
  have c: "[None, None, Some ''tt''] \<noteq> []" "\<not> cross_corner [None, None, Some ''tt'']"
    by (simp_all add: cross_corner_def)
  have d: "3 \<le> length [''025C'', ''1v80'', ''3v30'']" "3 \<le> length [''025C'', ''1v80'', ''1v65'']"
    by simp_all
  have a': "\<not> is_in ''nointpwr'' ''sky130_fd_io__top_gpiov2_tt_025C_1v80_1v65.lib''"
    by code_simp
  have b': "split_corner_name ''sky130_fd_io__top_gpiov2_tt_025C_1v80_1v65.lib'' =
     Inr (Some ''sky130_fd_io__top_gpiov2'', [None, None, Some ''tt''], [''025C'', ''1v80'', ''1v65''])"
    by code_simp
  have e: "\<not> startswith ([''025C'', ''1v80'', ''3v30''] ! 2) ''1''"
    "startswith ([''025C'', ''1v80'', ''1v65''] ! 2) ''1''"
    by (simp_all add: startswith_def)
  show ?thesis
    using secondary_voltage_filter[OF a b c d(1)] secondary_voltage_filter[OF a' b' c d(2)]
      a b b' c e
    by fastforce
qed

text \<open>
  C1 as stated fails: a secondary token \<open>3v30\<close>, which does not start with \<open>1\<close>, is kept
  and yields a record, and a secondary token \<open>1v65\<close> is excluded.
\<close>

theorem secondary_voltage_filter_counterexample:
  "yields_record (io_library_entry ''sky130_fd_io__top_gpiov2_tt_025C_1v80_3v30.lib'') \<and>
   io_library_entry ''sky130_fd_io__top_gpiov2_tt_025C_1v80_1v65.lib'' = Inr None"
  by code_simp

text \<open>
  C6 (as the code has it): for an IO corner file name whose first two process tokens are
  \<open>p\<close> and \<open>q\<close>, the cross-corner filter discards the file exactly when \<open>p \<noteq> q\<close>; the
  file yields a record exactly when \<open>p = q\<close> and the voltage filter lets its temperature
  and voltage tokens through (which needs at least three of them).
\<close>

theorem cross_corner_filter:
  assumes "\<not> is_in ''nointpwr'' f"
    and "corner_tokens (corner_file_stem f) = p # q # toks"
    and "split_corner_name f = Inr (cell, process, temp_volt)"
  shows "(cross_corner process \<longleftrightarrow> p \<noteq> q) \<and>
         (p \<noteq> q \<longrightarrow> io_library_entry f = Inr None) \<and>
         (yields_record (io_library_entry f) \<longleftrightarrow>
            p = q \<and> voltage_filtered temp_volt = Inr False)"
proof -
  from split_corner_name_Inr[OF assms(3)] obtain c where
    c: "cell = Some c" and pr: "process = butlast (tl (re_split_aux [] (corner_file_stem f)))"
    by blast
  have pq: "p \<in> {''ff'', ''ss'', ''tt''}" "q \<in> {''ff'', ''ss'', ''tt''}"
    using corner_tokens_set[of "corner_file_stem f"] assms(2) by auto
  from process_two_tokens[OF assms(2), of "[]"] pr obtain t rest where
    sh: "process = groups_of p @ Some t # groups_of q @ rest" by auto
  have x: "cross_corner process \<longleftrightarrow> p \<noteq> q"
    unfolding sh using pq by (rule cross_corner_groups)
  have s: "corner_speed process = Inr (speed_name p)"
    unfolding sh using pq(1) by (rule corner_speed_groups)
  show ?thesis
  proof (cases "p = q")
    case True
    with x have "\<not> cross_corner process" by simp
    from io_library_entry_after_speed[OF assms(1) assms(3)[unfolded c] this s] x True
    show ?thesis by simp
  next
    case False
    with x have "cross_corner process" by simp
    with assms(1) assms(3) have "io_library_entry f = Inr None"
      by (simp add: io_library_entry_def)
    with x False show ?thesis by (simp add: yields_record_def)
  qed
qed

theorem cross_corner_filter_witness:
  "corner_tokens (corner_file_stem ''cellname_ff_ff_n40C_1v95_5v50'') = ''ff'' # ''ff'' # [] \<and>
   yields_record (io_library_entry ''cellname_ff_ff_n40C_1v95_5v50'') \<and>
   corner_tokens (corner_file_stem ''cellname_ff_ss_n40C_1v95'') = ''ff'' # ''ss'' # [] \<and>
   io_library_entry ''cellname_ff_ss_n40C_1v95'' = Inr None"
proof -
  have a: "\<not> is_in ''nointpwr'' ''cellname_ff_ff_n40C_1v95_5v50''"
    "\<not> is_in ''nointpwr'' ''cellname_ff_ss_n40C_1v95''"
    by code_simp+
  have t1: "corner_tokens (corner_file_stem ''cellname_ff_ff_n40C_1v95_5v50'') = ''ff'' # ''ff'' # []"
    by code_simp
  have t2: "corner_tokens (corner_file_stem ''cellname_ff_ss_n40C_1v95'') = ''ff'' # ''ss'' # []"
    by code_simp
  have s1: "split_corner_name ''cellname_ff_ff_n40C_1v95_5v50'' =
      Inr (Some ''cellname'', [Some ''ff'', None, None, Some [], Some ''ff'', None, None],
           [''n40C'', ''1v95'', ''5v50''])"
    by code_simp
  have s2: "split_corner_name ''cellname_ff_ss_n40C_1v95'' =
      Inr (Some ''cellname'', [Some ''ff'', None, None, Some [], None, Some ''ss'', None],
           [''n40C'', ''1v95''])"
    by code_simp
  have v: "voltage_filtered [''n40C'', ''1v95'', ''5v50''] = Inr False"
    by code_simp
  have n: "''ff'' \<noteq> ''ss''" by simp
  show ?thesis
    using cross_corner_filter[OF a(1) t1 s1] cross_corner_filter[OF a(2) t2 s2] t1 t2 v n
    by simp
qed

text \<open>
  C6 as stated fails on its own example: \<open>cellname_ff_ff_n40C_1v95\<close> has no secondary
  voltage token, so \<open>temp_volt[2]\<close> raises IndexError instead of the file being accepted.
\<close>

theorem cross_corner_filter_counterexample:
  "io_library_entry ''cellname_ff_ff_n40C_1v95'' = Inl IndexError"
  by code_simp

lemma speed_name_cases:
  "speed_name ''ff'' = ''fast'' \<and> speed_name ''tt'' = ''typical'' \<and> speed_name ''ss'' = ''slow'' \<and>
   (code \<notin> {''ff'', ''tt'', ''ss''} \<longrightarrow> speed_name code = code)"
  by (auto simp: speed_name_def Let_def)

lemma scl_corner_speed: "fst (scl_corner code) = speed_name code"
  by (auto simp: scl_corner_def speed_name_def Let_def)

text \<open>
  C4 (as the code has it): \<open>ff\<close>, \<open>tt\<close>, \<open>ss\<close> map to \<open>fast\<close>, \<open>typical\<close>, \<open>slow\<close> and every
  other code is left as it is.  An IO record always carries the mapped first process
  token, and an IO file name without a process token raises StopIteration.  A
  standard-cell record of either family carries the mapped process-corner code, so a
  code other than the three is passed through as the speed class.
\<close>

theorem speed_class_mapping:
  "speed_name ''ff'' = ''fast'' \<and> speed_name ''tt'' = ''typical'' \<and> speed_name ''ss'' = ''slow'' \<and>
   (code \<notin> {''ff'', ''tt'', ''ss''} \<longrightarrow> speed_name code = code) \<and>
   (entry_speed (io_library_entry f) = Some s \<longrightarrow>
      (\<exists>p ps. corner_tokens (corner_file_stem f) = p # ps \<and> p \<in> {''ff'', ''tt'', ''ss''} \<and>
               s = speed_name p)) \<and>
   (\<not> is_in ''nointpwr'' f \<and> corner_tokens (corner_file_stem f) = [] \<longrightarrow>
      io_library_entry f = Inl StopIteration) \<and>
   (entry_speed (hd_library_entry files f) = Some s \<longrightarrow> s = speed_name (hd_corner_code f)) \<and>
   (entry_speed (scl_library_entry scl cds files f) = Some s \<longrightarrow> s = speed_name (scl_corner_code f))"
proof (intro conjI impI)
  assume a: "entry_speed (io_library_entry f) = Some s"
  then have y: "yields_record (io_library_entry f)"
    by (auto simp: entry_speed_def yields_record_def split: sum.splits option.splits)
  then have ni: "\<not> is_in ''nointpwr'' f"
    by (auto simp: io_library_entry_def yields_record_def)
  from y obtain cell process tv where sp: "split_corner_name f = Inr (cell, process, tv)"
    by (cases "split_corner_name f")
       (auto simp: io_library_entry_def yields_record_def ni split: if_splits)
  from y sp ni have nc: "\<not> cross_corner process"
    by (auto simp: io_library_entry_def yields_record_def)
  from split_corner_name_Inr[OF sp] obtain c where
    c: "cell = Some c" and pr: "process = butlast (tl (re_split_aux [] (corner_file_stem f)))"
    by blast
  show "\<exists>p ps. corner_tokens (corner_file_stem f) = p # ps \<and> p \<in> {''ff'', ''tt'', ''ss''} \<and>
               s = speed_name p"
  proof (cases "corner_tokens (corner_file_stem f)")
    case Nil
    then have "process = []" using pr process_no_token by simp
    with y sp ni show ?thesis
      by (simp add: io_library_entry_def yields_record_def cross_corner_def corner_speed_def)
  next
    case (Cons p ps)
    then have pin: "p \<in> {''ff'', ''ss'', ''tt''}"
      using corner_tokens_set[of "corner_file_stem f"] by auto
    from process_one_token[OF Cons, of "[]"] pr obtain rest where
      "process = groups_of p @ rest" by auto
    with pin have "corner_speed process = Inr (speed_name p)"
      by (simp add: corner_speed_groups)
    from io_library_entry_after_speed[OF ni sp[unfolded c] nc this] y a
    have "s = speed_name p" by simp
    with Cons pin show ?thesis by auto
  qed
next
  assume "\<not> is_in ''nointpwr'' f \<and> corner_tokens (corner_file_stem f) = []"
  then have ni: "\<not> is_in ''nointpwr'' f" and tk: "corner_tokens (corner_file_stem f) = []"
    by simp_all
  from re_split_aux_Nil_tokens[OF tk, of "[]"]
  have "split_corner_name f = Inr (Some (corner_file_stem f), [], tl (split_py ''_'' (corner_file_stem f)))"
    by (simp add: split_corner_name_def re_split_corner_def corner_file_stem_def Let_def)
  with ni show "io_library_entry f = Inl StopIteration"
    by (simp add: io_library_entry_def cross_corner_def corner_speed_def)
next
  assume "entry_speed (hd_library_entry files f) = Some s"
  then show "s = speed_name (hd_corner_code f)"
    by (auto simp: entry_speed_def hd_library_entry_def hd_corner_code_def corner_file_stem_def
          index_py_def Let_def split: if_splits sum.splits option.splits)
next
  assume "entry_speed (scl_library_entry scl cds files f) = Some s"
  then show "s = speed_name (scl_corner_code f)"
    using scl_corner_speed[of "scl_corner_code f"]
    by (auto simp: entry_speed_def scl_library_entry_def scl_corner_code_def corner_file_stem_def
          Let_def split: if_splits sum.splits option.splits prod.splits)
qed (simp_all add: speed_name_cases)

theorem speed_class_mapping_witness:
  "entry_speed (io_library_entry ''sky130_fd_io__top_gpiov2_tt_025C_1v80_3v30.lib'') = Some ''typical'' \<and>
   corner_tokens (corner_file_stem ''sky130_fd_io__top_gpiov2_tt_025C_1v80_3v30.lib'') = [''tt''] \<and>
   \<not> is_in ''nointpwr'' ''sky130_fd_io__top_gpiov2_sf_025C_1v80_3v30.lib'' \<and>
   corner_tokens (corner_file_stem ''sky130_fd_io__top_gpiov2_sf_025C_1v80_3v30.lib'') = [] \<and>
   io_library_entry ''sky130_fd_io__top_gpiov2_sf_025C_1v80_3v30.lib'' = Inl StopIteration \<and>
   entry_speed (hd_library_entry [] ''sky130_fd_sc_hd__ss_100C_1v60.lib'') = Some ''slow'' \<and>
   hd_corner_code ''sky130_fd_sc_hd__ss_100C_1v60.lib'' = ''ss'' \<and>
   entry_speed (scl_library_entry ''/scl'' (SStr ''/cds'') [] ''sky130_ff_1.98_0_nldm.lib'') = Some ''fast'' \<and>
   scl_corner_code ''sky130_ff_1.98_0_nldm.lib'' = ''ff'' \<and>
   ''sf'' \<notin> {''ff'', ''tt'', ''ss''} \<and> speed_name ''sf'' = ''sf''"
proof -
  have a: "entry_speed (io_library_entry ''sky130_fd_io__top_gpiov2_tt_025C_1v80_3v30.lib'') = Some ''typical''"
    by code_simp
  have b: "corner_tokens (corner_file_stem ''sky130_fd_io__top_gpiov2_tt_025C_1v80_3v30.lib'') = [''tt'']"
    by code_simp
  have c: "\<not> is_in ''nointpwr'' ''sky130_fd_io__top_gpiov2_sf_025C_1v80_3v30.lib''"
    by code_simp
  have d: "corner_tokens (corner_file_stem ''sky130_fd_io__top_gpiov2_sf_025C_1v80_3v30.lib'') = []"
    by code_simp
  have e: "entry_speed (hd_library_entry [] ''sky130_fd_sc_hd__ss_100C_1v60.lib'') = Some ''slow''"
    by code_simp
  have f: "hd_corner_code ''sky130_fd_sc_hd__ss_100C_1v60.lib'' = ''ss''"
    by code_simp
  have g: "entry_speed (scl_library_entry ''/scl'' (SStr ''/cds'') [] ''sky130_ff_1.98_0_nldm.lib'') = Some ''fast''"
    by code_simp
  have h: "scl_corner_code ''sky130_ff_1.98_0_nldm.lib'' = ''ff''"
    by code_simp
  have i: "''sf'' \<notin> {''ff'', ''tt'', ''ss''}"
    by simp
  show ?thesis
    using a b c d e f g h i
      speed_class_mapping [of "''sf''" "''sky130_fd_io__top_gpiov2_sf_025C_1v80_3v30.lib''"]
    by simp
qed

text \<open>
  C4 as stated fails: the \<open>sky130_fd_sc_hd\<close> loop takes a file whose process-corner code is
  \<open>sf\<close> and passes the code through as the speed class of the record.
\<close>

theorem speed_class_mapping_counterexample:
  "entry_speed (hd_library_entry [] ''sky130_fd_sc_hd__sf_025C_1v80.lib'') = Some ''sf''"
  by code_simp

subsection \<open>String replacement\<close>

lemma prefix_append_long:
  "length old \<le> length u \<Longrightarrow> prefix old (u @ v) \<longleftrightarrow> prefix old u"
  by (auto simp: prefix_append prefix_length_le dest: prefix_length_le
      intro: prefix_order.antisym)

lemma replace_py_absent:
  "old \<noteq> [] \<Longrightarrow> \<not> is_in old s \<Longrightarrow> replace_py old new s = s"
  by (induction s) auto

lemma replace_py_first:
  assumes "old \<noteq> []" and "\<not> is_in old (a @ butlast old)"
  shows "replace_py old new (a @ old @ b) = a @ new @ replace_py old new b"
  using assms(2)
proof (induction a)
  case Nil
  from assms(1) obtain c cs where o: "old = c # cs" by (cases old) auto
  show ?case by (simp add: o)
next
  case (Cons x a)
  from Cons.prems have np: "\<not> prefix old (x # a @ butlast old)"
    and ni: "\<not> is_in old (a @ butlast old)" by simp_all
  have "length old \<le> length (x # a @ butlast old)" by simp
  from prefix_append_long[OF this, of "[last old] @ b"] np assms(1)
  have "\<not> prefix old (x # a @ old @ b)"
    by (metis append.assoc append_Cons append_butlast_last_id)
  with Cons.IH[OF ni] assms(1) show ?case by simp
qed

subsection \<open>Transistor netlist renaming\<close>

text \<open>
  C3 (as the code has it): the renaming is a substring replacement.  A line that contains
  neither source identifier is copied unchanged; the first occurrence of
  \<open>pfet_01v8_hvt\<close> in a line is replaced whatever stands before and after it, and so is
  the first occurrence of \<open>nfet_01v8\<close> (shown for a line without \<open>pfet_01v8_hvt\<close>), the
  rest of the line being treated the same way.
\<close>

theorem cdl_line_rewrites_substrings:
  "(\<not> is_in ''pfet_01v8_hvt'' line \<and> \<not> is_in ''nfet_01v8'' line \<longrightarrow>
      cdl_line pmos_dev nmos_dev line = line) \<and>
   (\<not> is_in ''pfet_01v8_hvt'' (a @ ''pfet_01v8_hv'') \<longrightarrow>
      cdl_line pmos_dev nmos_dev (a @ ''pfet_01v8_hvt'' @ b) =
        replace_py ''nfet_01v8'' nmos_dev (a @ pmos_dev @ replace_py ''pfet_01v8_hvt'' pmos_dev b)) \<and>
   (\<not> is_in ''pfet_01v8_hvt'' (a @ ''nfet_01v8'' @ b) \<and> \<not> is_in ''nfet_01v8'' (a @ ''nfet_01v'') \<longrightarrow>
      cdl_line pmos_dev nmos_dev (a @ ''nfet_01v8'' @ b) =
        a @ nmos_dev @ replace_py ''nfet_01v8'' nmos_dev b)"
proof (intro conjI impI)
  assume "\<not> is_in ''pfet_01v8_hvt'' line \<and> \<not> is_in ''nfet_01v8'' line"
  then show "cdl_line pmos_dev nmos_dev line = line"
    by (simp add: cdl_line_def replace_py_absent)
next
  assume "\<not> is_in ''pfet_01v8_hvt'' (a @ ''pfet_01v8_hv'')"
  then have "replace_py ''pfet_01v8_hvt'' pmos_dev (a @ ''pfet_01v8_hvt'' @ b) =
      a @ pmos_dev @ replace_py ''pfet_01v8_hvt'' pmos_dev b"
    using replace_py_first[of "''pfet_01v8_hvt''" a pmos_dev b] by simp
  then show "cdl_line pmos_dev nmos_dev (a @ ''pfet_01v8_hvt'' @ b) =
        replace_py ''nfet_01v8'' nmos_dev (a @ pmos_dev @ replace_py ''pfet_01v8_hvt'' pmos_dev b)"
    by (simp only: cdl_line_def)
next
  assume h: "\<not> is_in ''pfet_01v8_hvt'' (a @ ''nfet_01v8'' @ b) \<and> \<not> is_in ''nfet_01v8'' (a @ ''nfet_01v'')"
  then have "replace_py ''pfet_01v8_hvt'' pmos_dev (a @ ''nfet_01v8'' @ b) = a @ ''nfet_01v8'' @ b"
    by (simp add: replace_py_absent)
  moreover have "replace_py ''nfet_01v8'' nmos_dev (a @ ''nfet_01v8'' @ b) =
      a @ nmos_dev @ replace_py ''nfet_01v8'' nmos_dev b"
    using h replace_py_first[of "''nfet_01v8''" a nmos_dev b] by simp
  ultimately show "cdl_line pmos_dev nmos_dev (a @ ''nfet_01v8'' @ b) =
        a @ nmos_dev @ replace_py ''nfet_01v8'' nmos_dev b"
    by (simp only: cdl_line_def)
qed

theorem cdl_line_rewrites_substrings_witness:
  "\<not> is_in ''pfet_01v8_hvt'' (''M0 d g s b '' @ ''nfet_01v8'' @ ''_lvt w=1'') \<and>
   \<not> is_in ''nfet_01v8'' (''M0 d g s b '' @ ''nfet_01v'') \<and>
   cdl_line ''phighvt'' ''nshort'' (''M0 d g s b '' @ ''nfet_01v8'' @ ''_lvt w=1'') =
     ''M0 d g s b nshort_lvt w=1''"
proof -
  have a: "\<not> is_in ''pfet_01v8_hvt'' (''M0 d g s b '' @ ''nfet_01v8'' @ ''_lvt w=1'')"
    by code_simp
  have b: "\<not> is_in ''nfet_01v8'' (''M0 d g s b '' @ ''nfet_01v'')"
    by code_simp
  have c: "replace_py ''nfet_01v8'' ''nshort'' ''_lvt w=1'' = ''_lvt w=1''"
    by code_simp
  show ?thesis
    using a b c cdl_line_rewrites_substrings [of _ "''phighvt''" "''nshort''" "''M0 d g s b ''" "''_lvt w=1''"]
    by simp
qed

text \<open>
  C3 as stated fails: with the Calibre names the identifier \<open>nfet_01v8_lvt\<close> becomes
  \<open>nshort_lvt\<close>, and with the Netgen names an identifier that already carries the prefix
  gets it a second time.
\<close>

theorem cdl_whole_token_counterexample:
  "cdl_line ''phighvt'' ''nshort'' ''M0 d g s b nfet_01v8_lvt w=1'' = ''M0 d g s b nshort_lvt w=1'' \<and>
   cdl_line ''sky130_fd_pr__pfet_01v8_hvt'' ''sky130_fd_pr__nfet_01v8'' ''M1 d g s b sky130_fd_pr__nfet_01v8''
     = ''M1 d g s b sky130_fd_pr__sky130_fd_pr__nfet_01v8''"
  by code_simp

subsection \<open>Logic-simulation model repair\<close>

text \<open>
  C2: the claim is that a source without the malformed timing-arc expression is repaired
  with the excision skipped.  The code instead raises IndexError at line 480, where the
  first element of an empty list of matches is taken; the default assigned at line 477 is
  never used.  This is \<open>setup_verilog\<close> on the example installation with the repaired
  vendor file.
\<close>

theorem setup_verilog_absent_pattern_raises:
  "(case setup_verilog (example_tech_of ''sky130_fd_sc_hd'') (example_fs example_verilog_fixed) of
      Inl e \<Rightarrow> e = IndexError
    | Inr fs' \<Rightarrow> False)"
  by code_simp

lemma fold_update_at:
  "idx < length sl \<Longrightarrow>
   fold (\<lambda>elem sl'. if p elem then sl'[idx := g elem (sl' ! idx)] else sl') es sl =
     sl[idx := fold (\<lambda>elem l. if p elem then g elem l else l) es (sl ! idx)]"
  by (induction es arbitrary: sl) auto

lemma fix_line_eq:
  "idx < length sl \<Longrightarrow> fix_line canonical idx sl = sl[idx := rewrite_refs canonical (sl ! idx)]"
  unfolding fix_line_def rewrite_refs_def
  using fold_update_at[of idx sl "\<lambda>elem. elem \<noteq> canonical" "\<lambda>elem l. replace_py elem canonical l"
          "findall_capture (sl ! idx)"]
  by simp

lemma fold_fix_line_range:
  "length p = lo \<Longrightarrow>
   fold (fix_line c) [lo..<lo + length b] (p @ b @ r) = p @ map (rewrite_refs c) b @ r"
proof (induction b arbitrary: p lo)
  case Nil
  then show ?case by simp
next
  case (Cons x b)
  have u: "[lo..<lo + length (x # b)] = lo # [Suc lo..<Suc lo + length b]"
    by (subst upt_rec) simp
  have f: "fix_line c lo (p @ x # b @ r) = (p @ [rewrite_refs c x]) @ b @ r"
    using Cons.prems by (simp add: fix_line_eq nth_append list_update_append)
  have "length (p @ [rewrite_refs c x]) = Suc lo" using Cons.prems by simp
  from Cons.IH[OF this] show ?case
    unfolding u by (simp add: f)
qed

lemma pattern_idx_of_skip:
  "\<forall>l\<in>set a. \<not> is_sleep_decl l \<Longrightarrow>
   pattern_idx_of (enumerate k (a @ rest)) = pattern_idx_of (enumerate (k + length a) rest)"
  by (induction a arbitrary: k) auto

lemma harmonize_spec_skip:
  "\<forall>l\<in>set a. \<not> is_sleep_decl l \<Longrightarrow>
   harmonize_spec cur (a @ rest) =
     map (case cur of None \<Rightarrow> (\<lambda>l. l) | Some c \<Rightarrow> rewrite_refs c) a @ harmonize_spec cur rest"
  by (induction a) (auto split: option.splits)

lemma harmonize_spec_reset:
  "rest = [] \<or> is_sleep_decl (hd rest) \<Longrightarrow> harmonize_spec cur rest = harmonize_spec None rest"
  by (cases rest) auto

lemma fix_net_refs_spec:
  "pattern_idx_of (enumerate (length pre) sl) = Inr ps \<Longrightarrow>
   sl = [] \<or> is_sleep_decl (hd sl) \<Longrightarrow>
   fix_net_refs ps (pre @ sl) = pre @ harmonize_spec None sl"
proof (induction ps arbitrary: pre sl)
  case Nil
  then have "sl = []"
    by (cases sl) (auto split: sum.splits)
  then show ?case by simp
next
  case (Cons dc ps)
  obtain d c where dc: "dc = (d, c)" by (cases dc)
  from Cons.prems(1) obtain dl sl' where sl: "sl = dl # sl'"
    by (cases sl) auto
  with Cons.prems(2) have decl: "is_sleep_decl dl" by simp
  from Cons.prems(1) have d: "d = length pre"
    and c: "index_py (findall_capture dl) 0 = Inr c"
    and ps: "pattern_idx_of (enumerate (Suc (length pre)) sl') = Inr ps"
    unfolding sl dc using decl by (auto split: sum.splits)
  define b where "b = takeWhile (\<lambda>l. \<not> is_sleep_decl l) sl'"
  define rest where "rest = dropWhile (\<lambda>l. \<not> is_sleep_decl l) sl'"
  have sl': "sl' = b @ rest" by (simp add: b_def rest_def)
  have nb: "\<forall>l\<in>set b. \<not> is_sleep_decl l"
    unfolding b_def by (auto dest: set_takeWhileD)
  have hr: "rest = [] \<or> is_sleep_decl (hd rest)"
    unfolding rest_def using hd_dropWhile[of "\<lambda>l. \<not> is_sleep_decl l" sl'] by auto
  have ps': "pattern_idx_of (enumerate (Suc (length pre) + length b) rest) = Inr ps"
    using ps pattern_idx_of_skip[OF nb, of "Suc (length pre)" rest] by (simp add: sl')
  have stop: "(case ps of [] \<Rightarrow> length (pre @ sl) | (next_idx, _) # _ \<Rightarrow> next_idx)
                = Suc (length pre) + length b"
  proof (cases rest)
    case Nil
    with ps' have "ps = []" by simp
    then show ?thesis by (simp add: sl sl' Nil)
  next
    case (Cons dl2 rest')
    with hr have "is_sleep_decl dl2" by simp
    with ps' Cons show ?thesis by (auto split: sum.splits)
  qed
  have hc: "hd (findall_capture dl) = c"
    using c by (auto simp: index_py_def hd_conv_nth split: if_splits)
  have fold_eq: "fold (fix_line c) [d + 1..<Suc (length pre) + length b] (pre @ sl)
         = (pre @ [dl]) @ map (rewrite_refs c) b @ rest"
    using fold_fix_line_range[of "pre @ [dl]" "Suc (length pre)" c b rest]
    by (simp add: d sl sl')
  have len: "length ((pre @ [dl]) @ map (rewrite_refs c) b) = Suc (length pre) + length b"
    by simp
  have "fix_net_refs (dc # ps) (pre @ sl) =
        fix_net_refs ps (((pre @ [dl]) @ map (rewrite_refs c) b) @ rest)"
    unfolding dc by (simp only: fix_net_refs.simps Let_def stop fold_eq append_assoc)
  also have "\<dots> = ((pre @ [dl]) @ map (rewrite_refs c) b) @ harmonize_spec None rest"
    using Cons.IH[of "(pre @ [dl]) @ map (rewrite_refs c) b" rest] ps' hr
    by (simp only: len)
  also have "\<dots> = pre @ harmonize_spec None sl"
    using harmonize_spec_skip[OF nb, of "Some c" rest] harmonize_spec_reset[OF hr, of "Some c"]
    by (simp add: sl sl' decl hc)
  finally show ?case .
qed

lemma harmonize_refines_when_ok:
  assumes "harmonize sl = Inr out"
  shows "out = harmonize_spec None sl"
proof -
  from assms obtain ps where ps: "pattern_idx_of (enumerate 0 sl) = Inr ps"
    and out: "out = fix_net_refs ps sl"
    by (auto simp: harmonize_def split: sum.splits)
  define a where "a = takeWhile (\<lambda>l. \<not> is_sleep_decl l) sl"
  define rest where "rest = dropWhile (\<lambda>l. \<not> is_sleep_decl l) sl"
  have sl: "sl = a @ rest" by (simp add: a_def rest_def)
  have na: "\<forall>l\<in>set a. \<not> is_sleep_decl l"
    unfolding a_def by (auto dest: set_takeWhileD)
  have hr: "rest = [] \<or> is_sleep_decl (hd rest)"
    unfolding rest_def using hd_dropWhile[of "\<lambda>l. \<not> is_sleep_decl l" sl] by auto
  have "pattern_idx_of (enumerate (length a) rest) = Inr ps"
    using ps pattern_idx_of_skip[OF na, of 0 rest] by (simp add: sl)
  from fix_net_refs_spec[OF this hr] have "fix_net_refs ps sl = a @ harmonize_spec None rest"
    by (simp add: sl)
  also have "\<dots> = harmonize_spec None sl"
    using harmonize_spec_skip[OF na, of None rest] by (simp add: sl)
  finally show ?thesis by (simp add: out)
qed

lemma split_py_nonempty: "split_py sep s \<noteq> []"
  by (induction sep s rule: split_py.induct) (auto split: list.splits)

lemma hd_split_py_line:
  "n \<notin> set x \<Longrightarrow> w = [] \<or> hd w = n \<Longrightarrow> hd (split_py [n] (x @ w)) = x"
proof (induction x)
  case Nil
  then show ?case by (cases w) auto
next
  case (Cons c x)
  then show ?case
    by (cases "split_py [n] (x @ w)") (auto simp: split_py_nonempty)
qed

lemma tl_split_py_line:
  "u \<noteq> [] \<Longrightarrow> last u = n \<Longrightarrow> n \<notin> set x \<Longrightarrow> w = [] \<or> hd w = n \<Longrightarrow>
   x \<in> set (tl (split_py [n] (u @ x @ w)))"
proof (induction u)
  case Nil
  then show ?case by simp
next
  case (Cons c u)
  show ?case
  proof (cases "u = []")
    case True
    with Cons.prems have "c = n" by simp
    moreover have "hd (split_py [n] (x @ w)) \<in> set (split_py [n] (x @ w))"
      by (simp add: split_py_nonempty)
    ultimately show ?thesis
      using True hd_split_py_line[OF Cons.prems(3,4)] by simp
  next
    case False
    with Cons.prems have "last u = n" by simp
    from Cons.IH[OF False this Cons.prems(3,4)]
    have ih: "x \<in> set (tl (split_py [n] (u @ x @ w)))" .
    show ?thesis
    proof (cases "split_py [n] (u @ x @ w)")
      case Nil
      then show ?thesis by (simp add: split_py_nonempty)
    next
      case (Cons p ps)
      with ih have "x \<in> set ps" by simp
      with Cons show ?thesis by auto
    qed
  qed
qed

lemma piece_in_split_py:
  assumes "u = [] \<or> last u = n" and "n \<notin> set x" and "w = [] \<or> hd w = n"
  shows "x \<in> set (split_py [n] (u @ x @ w))"
proof (cases "u = []")
  case True
  have "hd (split_py [n] (x @ w)) \<in> set (split_py [n] (x @ w))"
    by (simp add: split_py_nonempty)
  with True show ?thesis using hd_split_py_line[OF assms(2,3)] by simp
next
  case False
  with assms(1) have l: "last u = n" by simp
  show ?thesis
    by (rule list.set_sel(2)[OF split_py_nonempty tl_split_py_line[OF False l assms(2,3)]])
qed

lemma last_capture_append:
  "capture_at t \<noteq> None \<Longrightarrow> last_capture (a @ t) \<noteq> None"
proof (induction a)
  case Nil
  then show ?case
    by (cases t) (auto simp: capture_at_def split: option.splits)
next
  case (Cons x a)
  then show ?case by (auto split: option.splits)
qed

lemma is_in_before_first: "is_in p s \<Longrightarrow> before_first p s \<noteq> None"
  by (induction s) auto

lemma is_in_append_left: "is_in (p @ q) s \<Longrightarrow> is_in p s"
  by (induction s) (auto dest: append_prefixD)

lemma is_sleep_decl_captured:
  assumes "is_sleep_decl v"
  shows "findall_capture v \<noteq> []"
proof -
  define n where "n = CHR ''\<newline>''"
  define r where "r = dropWhile isspace v"
  define r2 where "r2 = drop 10 r"
  define seg where "seg = takeWhile (\<lambda>c. c \<noteq> n) r2"
  define tail where "tail = dropWhile (\<lambda>c. c \<noteq> n) r2"
  define W where "W = takeWhile isspace v @ ''wire ''"
  define x0 where "x0 = rev (takeWhile (\<lambda>c. c \<noteq> n) (rev W))"
  define u where "u = rev (dropWhile (\<lambda>c. c \<noteq> n) (rev W))"
  from assms have pre: "prefix ''wire SLEEP'' r"
    and bd: "(case dropWhile (\<lambda>c. c \<noteq> CHR ''B'') seg of [] \<Rightarrow> False
              | b # after \<Rightarrow> is_in ''delayed;'' after)"
    by (simp_all add: is_sleep_decl_def Let_def r_def r2_def seg_def n_def)
  from pre obtain z where z: "r = ''wire SLEEP'' @ z"
    by (auto simp: prefix_def)
  then have "r2 = z" by (simp add: r2_def)
  with z have r: "r = ''wire SLEEP'' @ r2" by simp
  have v: "v = u @ (x0 @ ''SLEEP'' @ seg) @ tail"
  proof -
    have "v = takeWhile isspace v @ r" by (simp add: r_def)
    also have "\<dots> = W @ ''SLEEP'' @ r2" by (subst r) (simp add: W_def)
    also have "W = u @ x0"
      unfolding u_def x0_def by (metis rev_append rev_rev_ident takeWhile_dropWhile_id)
    also have "r2 = seg @ tail" by (simp add: seg_def tail_def)
    finally show ?thesis by simp
  qed
  have u: "u = [] \<or> last u = n"
    unfolding u_def using hd_dropWhile[of "\<lambda>c. c \<noteq> n" "rev W"]
    by (auto simp: last_rev)
  have x: "n \<notin> set (x0 @ ''SLEEP'' @ seg)"
    unfolding x0_def seg_def n_def
    by (auto dest: set_takeWhileD)
  have t: "tail = [] \<or> hd tail = n"
    unfolding tail_def using hd_dropWhile[of "\<lambda>c. c \<noteq> n" r2] by auto
  have piece: "x0 @ ''SLEEP'' @ seg \<in> set (split_py [n] v)"
    by (subst v) (rule piece_in_split_py[OF u x t])
  from bd obtain b after where da: "dropWhile (\<lambda>c. c \<noteq> CHR ''B'') seg = b # after"
    and dl: "is_in ''delayed;'' after"
    by (auto split: list.splits)
  from dl have "is_in ''delayed'' after"
    using is_in_append_left[of "''delayed''" "'';''" after] by simp
  then have "before_first ''delayed'' after \<noteq> None"
    by (rule is_in_before_first)
  then have "capture_at (''SLEEP'' @ seg) \<noteq> None"
    by (auto simp: capture_at_def Let_def da)
  then have "last_capture (x0 @ ''SLEEP'' @ seg) \<noteq> None"
    by (rule last_capture_append)
  with piece show ?thesis
    unfolding findall_capture_def n_def[symmetric]
    by (auto split: option.splits)
qed

lemma pattern_idx_of_total: "\<exists>ps. pattern_idx_of xs = Inr ps"
proof (induction xs)
  case Nil
  then show ?case by simp
next
  case (Cons iv xs)
  obtain idx v where iv: "iv = (idx, v)" by (cases iv)
  show ?case
  proof (cases "is_sleep_decl v")
    case True
    then have "findall_capture v \<noteq> []" by (rule is_sleep_decl_captured)
    with Cons True show ?thesis by (auto simp: iv index_py_def)
  next
    case False
    with Cons show ?thesis by (simp add: iv)
  qed
qed

text \<open>
  C5 (as the code has it): the harmonization never raises, and its result is the one-pass
  reading \<open>harmonize_spec\<close>: declaration lines are kept; every line between a declaration
  and the next one (or the end of the file) has each spelling captured by
  \<open>.*(SLEEP.*?B.*?delayed).*\<close> that differs from the canonical name replaced by it
  throughout the line; a line on which the pattern captures nothing is left as it is.
\<close>

theorem harmonize_refines:
  "harmonize sl = Inr (harmonize_spec None sl)"
proof -
  obtain ps where "pattern_idx_of (enumerate 0 sl) = Inr ps"
    using pattern_idx_of_total by blast
  then have "harmonize sl = Inr (fix_net_refs ps sl)"
    by (simp add: harmonize_def)
  with harmonize_refines_when_ok show ?thesis by simp
qed

text \<open>
  C5 as stated fails on its own example: the first reference is rewritten and the second
  is already canonical, but \<open>Sleep1Bdelay\<close> is not matched by the case-sensitive pattern
  and stays as it is.
\<close>

theorem harmonize_counterexample:
  "harmonize [''  wire SLEEP1B_delayed;\<newline>'', ''  and (X, SLEEP1_B_delayed, A);\<newline>'',
              ''  buf (Y, SLEEP1B_delayed);\<newline>'', ''  or (Z, Sleep1Bdelay);\<newline>'']
   = Inr [''  wire SLEEP1B_delayed;\<newline>'', ''  and (X, SLEEP1B_delayed, A);\<newline>'',
          ''  buf (Y, SLEEP1B_delayed);\<newline>'', ''  or (Z, Sleep1Bdelay);\<newline>'']"
  by code_simp

subsection \<open>IO cell LEF repair\<close>

lemma replace_py_prefix_iff:
  assumes "old \<noteq> []" and "new \<noteq> []" and "hd old \<notin> set w" and "hd new \<notin> set w"
  shows "prefix w (replace_py old new t) \<longleftrightarrow> prefix w t"
  using assms(3,4)
proof (induction w arbitrary: t)
  case Nil
  then show ?case by simp
next
  case (Cons a w)
  obtain o1 os where o: "old = o1 # os" using assms(1) by (cases old) auto
  obtain n1 ns where n: "new = n1 # ns" using assms(2) by (cases new) auto
  from Cons.prems have a: "a \<noteq> o1" "a \<noteq> n1" and w: "hd old \<notin> set w" "hd new \<notin> set w"
    by (auto simp: o n)
  show ?case
  proof (cases t)
    case Nil
    then show ?thesis using assms(1) by simp
  next
    case (Cons c cs)
    show ?thesis
    proof (cases "prefix old (c # cs)")
      case True
      then have "c = o1" by (simp add: o)
      with True a show ?thesis
        using assms(1) by (simp add: Cons n)
    next
      case False
      with Cons.IH[OF w, of cs] show ?thesis
        using assms(1) by (simp add: Cons)
    qed
  qed
qed

lemma drop_snoc_le: "k \<le> length xs \<Longrightarrow> drop k (xs @ [n]) = drop k xs @ [n]"
  by simp

lemma replace_py_snoc:
  assumes "old \<noteq> []" and "n \<notin> set old"
  shows "replace_py old new (s @ [n]) = replace_py old new s @ [n]"
proof (induction "length s" arbitrary: s rule: less_induct)
  case less
  show ?case
  proof (cases s)
    case Nil
    have "\<not> prefix old [n]"
      using assms by (cases old) auto
    then show ?thesis using assms(1) by (simp add: Nil)
  next
    case (Cons c cs)
    have p: "prefix old (c # cs @ [n]) \<longleftrightarrow> prefix old (c # cs)"
    proof
      assume "prefix old (c # cs @ [n])"
      then have "prefix old ((c # cs) @ [n])" by simp
      then have "prefix old (c # cs) \<or> old = (c # cs) @ [n]"
        unfolding prefix_snoc by blast
      with assms(2) show "prefix old (c # cs)" by auto
    next
      assume "prefix old (c # cs)"
      then show "prefix old (c # cs @ [n])"
        by (metis append_Cons prefix_prefix)
    qed
    show ?thesis
    proof (cases "prefix old (c # cs)")
      case True
      then have le: "length old \<le> length (c # cs)" by (rule prefix_length_le)
      have d: "drop (length old) (c # cs @ [n]) = drop (length old) (c # cs) @ [n]"
        using drop_snoc_le[OF le, of n] by simp
      have "length (drop (length old) (c # cs)) < length s"
        using assms(1) by (simp add: Cons)
      from less[OF this] True p show ?thesis
        using assms(1) d by (simp add: Cons del: drop_Suc_Cons)
    next
      case False
      have "length cs < length s" by (simp add: Cons)
      from less[OF this] False p show ?thesis
        using assms(1) by (simp add: Cons)
    qed
  qed
qed

lemma all_ports_core_drop: "all_ports_core s \<Longrightarrow> all_ports_core (drop k s)"
proof (induction s arbitrary: k)
  case Nil
  then show ?case by simp
next
  case (Cons c cs)
  then show ?case by (cases k) (auto split: if_splits)
qed

lemma no_port_all_core: "\<not> is_in ''PORT'' s \<Longrightarrow> all_ports_core s"
  by (induction s) auto

lemma apc_class_core_append: "all_ports_core (class_core @ r) = all_ports_core r"
  by (simp add: class_core_def)

lemma count_class_core_append:
  "count_occurrences ''PORT'' (class_core @ r) = Suc (count_occurrences ''PORT'' r)"
  by (simp add: class_core_def)

lemma count_PORT_append:
  "count_occurrences ''PORT'' (''PORT'' @ r) = Suc (count_occurrences ''PORT'' r)"
  by simp

lemma apc_SPACER_append: "all_ports_core (''SPACER'' @ r) = all_ports_core r"
  by simp

lemma count_SPACER_append:
  "count_occurrences ''PORT'' (''SPACER'' @ r) = count_occurrences ''PORT'' r"
  by simp

lemma count_AREAIO_append:
  "count_occurrences ''PORT'' (''AREAIO'' @ r) = count_occurrences ''PORT'' r"
  by simp

lemma spacer_class_core_tail:
  "replace_py ''AREAIO'' ''SPACER'' (''ORT\<newline>      CLASS CORE ;'' @ rest) =
     ''ORT\<newline>      CLASS CORE ;'' @ replace_py ''AREAIO'' ''SPACER'' rest"
  by simp

lemma prefix_old_split: "prefix old s \<Longrightarrow> s = old @ drop (length old) s"
  by (metis append_eq_conv_conj prefix_def)

lemma class_core_all_ports:
  "all_ports_core (replace_py ''PORT'' class_core s)"
proof (induction "length s" arbitrary: s rule: less_induct)
  case less
  show ?case
  proof (cases s)
    case Nil
    then show ?thesis by simp
  next
    case (Cons c cs)
    show ?thesis
    proof (cases "prefix ''PORT'' (c # cs)")
      case True
      have "length (drop (length ''PORT'') (c # cs)) < length s" by (simp add: Cons)
      from less[OF this] True show ?thesis
        by (simp add: Cons apc_class_core_append del: drop_Suc_Cons prefix_code)
    next
      case False
      have "length cs < length s" by (simp add: Cons)
      from less[OF this] have ih: "all_ports_core (replace_py ''PORT'' class_core cs)" .
      have "prefix ''PORT'' (c # replace_py ''PORT'' class_core cs) \<longleftrightarrow> prefix ''PORT'' (c # cs)"
        using replace_py_prefix_iff[of "''PORT''" class_core "''ORT''" cs]
        by (simp add: class_core_def)
      with False ih show ?thesis
        by (simp add: Cons del: prefix_code)
    qed
  qed
qed

lemma class_core_count:
  "count_occurrences ''PORT'' (replace_py ''PORT'' class_core s) = count_occurrences ''PORT'' s"
proof (induction "length s" arbitrary: s rule: less_induct)
  case less
  show ?case
  proof (cases s)
    case Nil
    then show ?thesis by simp
  next
    case (Cons c cs)
    show ?thesis
    proof (cases "prefix ''PORT'' (c # cs)")
      case True
      have "length (drop (length ''PORT'') (c # cs)) < length s" by (simp add: Cons)
      from less[OF this]
      have ih: "count_occurrences ''PORT'' (replace_py ''PORT'' class_core (drop (length ''PORT'') (c # cs)))
          = count_occurrences ''PORT'' (drop (length ''PORT'') (c # cs))" .
      have r: "replace_py ''PORT'' class_core (c # cs) =
          class_core @ replace_py ''PORT'' class_core (drop (length ''PORT'') (c # cs))"
        using True by (simp del: drop_Suc_Cons prefix_code)
      have "c # cs = ''PORT'' @ drop (length ''PORT'') (c # cs)"
        using True by (rule prefix_old_split)
      then have "count_occurrences ''PORT'' (c # cs) =
          Suc (count_occurrences ''PORT'' (drop (length ''PORT'') (c # cs)))"
        using count_PORT_append[of "drop (length ''PORT'') (c # cs)"] by simp
      with ih r show ?thesis
        by (simp only: Cons count_class_core_append)
    next
      case False
      have "length cs < length s" by (simp add: Cons)
      from less[OF this]
      have ih: "count_occurrences ''PORT'' (replace_py ''PORT'' class_core cs)
          = count_occurrences ''PORT'' cs" .
      have "prefix ''PORT'' (c # replace_py ''PORT'' class_core cs) \<longleftrightarrow> prefix ''PORT'' (c # cs)"
        using replace_py_prefix_iff[of "''PORT''" class_core "''ORT''" cs]
        by (simp add: class_core_def)
      with False ih show ?thesis
        by (simp add: Cons del: prefix_code)
    qed
  qed
qed

lemma spacer_count:
  "count_occurrences ''PORT'' (replace_py ''AREAIO'' ''SPACER'' s) = count_occurrences ''PORT'' s"
proof (induction "length s" arbitrary: s rule: less_induct)
  case less
  show ?case
  proof (cases s)
    case Nil
    then show ?thesis by simp
  next
    case (Cons c cs)
    show ?thesis
    proof (cases "prefix ''AREAIO'' (c # cs)")
      case True
      have "length (drop (length ''AREAIO'') (c # cs)) < length s" by (simp add: Cons)
      from less[OF this]
      have ih: "count_occurrences ''PORT'' (replace_py ''AREAIO'' ''SPACER'' (drop (length ''AREAIO'') (c # cs)))
          = count_occurrences ''PORT'' (drop (length ''AREAIO'') (c # cs))" .
      have r: "replace_py ''AREAIO'' ''SPACER'' (c # cs) =
          ''SPACER'' @ replace_py ''AREAIO'' ''SPACER'' (drop (length ''AREAIO'') (c # cs))"
        using True by (simp del: drop_Suc_Cons prefix_code)
      have "c # cs = ''AREAIO'' @ drop (length ''AREAIO'') (c # cs)"
        using True by (rule prefix_old_split)
      then have "count_occurrences ''PORT'' (c # cs) =
          count_occurrences ''PORT'' (drop (length ''AREAIO'') (c # cs))"
        using count_AREAIO_append[of "drop (length ''AREAIO'') (c # cs)"] by simp
      with ih r show ?thesis
        by (simp only: Cons count_SPACER_append)
    next
      case False
      have "length cs < length s" by (simp add: Cons)
      from less[OF this]
      have ih: "count_occurrences ''PORT'' (replace_py ''AREAIO'' ''SPACER'' cs)
          = count_occurrences ''PORT'' cs" .
      have "prefix ''PORT'' (replace_py ''AREAIO'' ''SPACER'' (c # cs)) \<longleftrightarrow> prefix ''PORT'' (c # cs)"
        by (rule replace_py_prefix_iff) simp_all
      with False ih show ?thesis
        by (simp add: Cons del: prefix_code)
    qed
  qed
qed

lemma spacer_all_ports:
  "all_ports_core s \<Longrightarrow> all_ports_core (replace_py ''AREAIO'' ''SPACER'' s)"
proof (induction "length s" arbitrary: s rule: less_induct)
  case less
  show ?case
  proof (cases s)
    case Nil
    then show ?thesis by simp
  next
    case (Cons c cs)
    show ?thesis
    proof (cases "prefix ''AREAIO'' (c # cs)")
      case True
      have "length (drop (length ''AREAIO'') (c # cs)) < length s" by (simp add: Cons)
      moreover have "all_ports_core (drop (length ''AREAIO'') (c # cs))"
        using less.prems all_ports_core_drop by (simp only: Cons)
      ultimately have "all_ports_core (replace_py ''AREAIO'' ''SPACER'' (drop (length ''AREAIO'') (c # cs)))"
        by (rule less.hyps)
      moreover have "replace_py ''AREAIO'' ''SPACER'' (c # cs) =
          ''SPACER'' @ replace_py ''AREAIO'' ''SPACER'' (drop (length ''AREAIO'') (c # cs))"
        using True by (simp del: drop_Suc_Cons prefix_code)
      ultimately show ?thesis
        by (simp only: Cons apc_SPACER_append)
    next
      case False
      have cs: "all_ports_core cs" using less.prems by (simp add: Cons)
      have "length cs < length s" by (simp add: Cons)
      from less.hyps[OF this cs]
      have ih: "all_ports_core (replace_py ''AREAIO'' ''SPACER'' cs)" .
      have r: "replace_py ''AREAIO'' ''SPACER'' (c # cs) = c # replace_py ''AREAIO'' ''SPACER'' cs"
        using False by (simp del: prefix_code)
      have "prefix class_core (c # replace_py ''AREAIO'' ''SPACER'' cs)"
        if p: "prefix ''PORT'' (c # replace_py ''AREAIO'' ''SPACER'' cs)"
      proof -
        have "prefix ''PORT'' (replace_py ''AREAIO'' ''SPACER'' (c # cs)) \<longleftrightarrow> prefix ''PORT'' (c # cs)"
          by (rule replace_py_prefix_iff) simp_all
        moreover from p have "prefix ''PORT'' (replace_py ''AREAIO'' ''SPACER'' (c # cs))"
          by (simp only: r)
        ultimately have "prefix ''PORT'' (c # cs)" by blast
        with less.prems have "prefix class_core (c # cs)"
          by (simp add: Cons del: prefix_code)
        then obtain rest where "c # cs = class_core @ rest"
          by (auto simp: prefix_def)
        then have c: "c = CHR ''P''" and "cs = ''ORT\<newline>      CLASS CORE ;'' @ rest"
          by (simp_all add: class_core_def)
        then have "replace_py ''AREAIO'' ''SPACER'' cs =
            ''ORT\<newline>      CLASS CORE ;'' @ replace_py ''AREAIO'' ''SPACER'' rest"
          by (simp only: spacer_class_core_tail)
        with c show ?thesis by (simp add: class_core_def)
      qed
      with ih r show ?thesis
        by (simp del: prefix_code add: Cons)
    qed
  qed
qed

lemma class_core_keeps_marker:
  assumes "w = ''PIN VSSD1'' \<or> w = ''END VSSD1''"
  shows "is_in w (replace_py ''PORT'' class_core s) \<longleftrightarrow> is_in w s"
proof (induction "length s" arbitrary: s rule: less_induct)
  case less
  show ?case
  proof (cases s)
    case Nil
    then show ?thesis by simp
  next
    case (Cons c cs)
    show ?thesis
    proof (cases "prefix ''PORT'' (c # cs)")
      case True
      define D where "D = drop (length ''PORT'') (c # cs)"
      have "length D < length s" by (simp add: Cons D_def)
      from less[OF this]
      have ih: "is_in w (replace_py ''PORT'' class_core D) = is_in w D" .
      have r: "replace_py ''PORT'' class_core (c # cs) = class_core @ replace_py ''PORT'' class_core D"
        using True by (simp add: D_def del: drop_Suc_Cons prefix_code)
      have s: "c # cs = ''PORT'' @ D"
        unfolding D_def using True by (rule prefix_old_split)
      have a: "is_in w (class_core @ x) = is_in w x" for x
        using assms by (auto simp: class_core_def)
      have b: "is_in w (''PORT'' @ x) = is_in w x" for x
        using assms by auto
      show ?thesis
        unfolding Cons r by (simp only: a ih s b)
    next
      case False
      have "length cs < length s" by (simp add: Cons)
      from less[OF this]
      have ih: "is_in w (replace_py ''PORT'' class_core cs) = is_in w cs" .
      have r: "replace_py ''PORT'' class_core (c # cs) = c # replace_py ''PORT'' class_core cs"
        using False by (simp del: prefix_code)
      have "prefix w (c # replace_py ''PORT'' class_core cs) \<longleftrightarrow> prefix w (c # cs)"
      proof (cases "w = ''END VSSD1''")
        case True
        have "prefix w (replace_py ''PORT'' class_core (c # cs)) \<longleftrightarrow> prefix w (c # cs)"
          by (rule replace_py_prefix_iff) (simp_all add: True class_core_def)
        then show ?thesis by (simp only: r)
      next
        case False
        with assms have w: "w = ''PIN VSSD1''" by simp
        have "prefix ''IN VSSD1'' (replace_py ''PORT'' class_core cs) \<longleftrightarrow> prefix ''IN VSSD1'' cs"
          by (rule replace_py_prefix_iff) (simp_all add: class_core_def)
        then show ?thesis by (simp add: w)
      qed
      with ih show ?thesis by (simp only: Cons r is_in.simps)
    qed
  qed
qed

lemma map_fst_filter_fst:
  "map fst (filter (\<lambda>(i, l). q i) zs) = filter q (map fst zs)"
  by (induction zs) auto

lemma indices_where_filter:
  "indices_where p sl = filter (\<lambda>i. p (sl ! i)) [0..<length sl]"
proof -
  have "filter (\<lambda>(idx, line). p line) (zip [0..<length sl] sl) =
        filter (\<lambda>(idx, line). p (sl ! idx)) (zip [0..<length sl] sl)"
    by (rule filter_cong) (auto simp: in_set_zip)
  also have "map fst \<dots> = filter (\<lambda>i. p (sl ! i)) (map fst (zip [0..<length sl] sl))"
    by (rule map_fst_filter_fst)
  finally show ?thesis
    by (simp add: indices_where_def enumerate_eq_zip)
qed

lemma indices_where_cong:
  "length xs = length ys \<Longrightarrow> (\<And>j. j < length xs \<Longrightarrow> p (xs ! j) = p (ys ! j)) \<Longrightarrow>
   indices_where p xs = indices_where p ys"
  unfolding indices_where_filter by (auto intro: filter_cong)

lemma fold_update_distinct:
  "distinct js \<Longrightarrow> \<forall>i\<in>set js. i < length sl \<Longrightarrow>
   length (fold (\<lambda>i sl'. sl'[i := g (sl' ! i)]) js sl) = length sl \<and>
   (\<forall>j<length sl. fold (\<lambda>i sl'. sl'[i := g (sl' ! i)]) js sl ! j =
       (if j \<in> set js then g (sl ! j) else sl ! j))"
proof (induction js arbitrary: sl)
  case Nil
  then show ?case by simp
next
  case (Cons i js)
  let ?sl = "sl[i := g (sl ! i)]"
  from Cons.prems have d: "distinct js" and b: "\<forall>k\<in>set js. k < length ?sl"
    and i: "i \<notin> set js" "i < length sl" by auto
  from Cons.IH[OF d b] show ?case
    using i by (auto simp: nth_list_update)
qed

lemma class_core_interval_nth:
  "length (class_core_interval (a, b) sl) = length sl \<and>
   (\<forall>j<length sl. class_core_interval (a, b) sl ! j =
      (if a \<le> j \<and> j < b \<and> is_in ''PORT'' (sl ! j)
       then replace_py ''PORT'' class_core (sl ! j) else sl ! j))"
proof -
  let ?port_idx = "indices_where (is_in ''PORT'') (take (b - a) (drop a sl))"
  let ?js = "map ((+) a) ?port_idx"
  have e: "class_core_interval (a, b) sl =
      fold (\<lambda>i sl'. sl'[i := replace_py ''PORT'' class_core (sl' ! i)]) ?js sl"
    by (simp add: class_core_interval_def fold_map comp_def)
  have d: "distinct ?js"
    by (simp add: indices_where_filter distinct_map)
  have m: "j \<in> set ?js \<longleftrightarrow> a \<le> j \<and> j < b \<and> j < length sl \<and> is_in ''PORT'' (sl ! j)" for j
  proof
    assume "j \<in> set ?js"
    then obtain i where "j = a + i" "i < min (length sl - a) (b - a)"
      "is_in ''PORT'' (take (b - a) (drop a sl) ! i)"
      by (auto simp: indices_where_filter)
    then show "a \<le> j \<and> j < b \<and> j < length sl \<and> is_in ''PORT'' (sl ! j)"
      by auto
  next
    assume h: "a \<le> j \<and> j < b \<and> j < length sl \<and> is_in ''PORT'' (sl ! j)"
    then have "j - a < min (length sl - a) (b - a)" by auto
    moreover from h have "is_in ''PORT'' (take (b - a) (drop a sl) ! (j - a))" by auto
    ultimately have "j - a \<in> set ?port_idx" by (auto simp: indices_where_filter)
    then have "a + (j - a) \<in> set ?js" unfolding set_map by (rule imageI)
    with h show "j \<in> set ?js" by simp
  qed
  have b: "\<forall>i\<in>set ?js. i < length sl"
    using m by blast
  from fold_update_distinct[OF d b, of "replace_py ''PORT'' class_core"] show ?thesis
    unfolding e using m by auto
qed

lemma class_core_funpow_all_ports:
  "all_ports_core x \<Longrightarrow> all_ports_core ((replace_py ''PORT'' class_core ^^ k) x)"
  by (cases k) (simp_all add: class_core_all_ports)

lemma class_core_net_fold:
  "length (fold class_core_interval ivs cur) = length cur \<and>
   (\<forall>j<length cur.
      (\<exists>k. fold class_core_interval ivs cur ! j = (replace_py ''PORT'' class_core ^^ k) (cur ! j)) \<and>
      ((\<exists>iv\<in>set ivs. fst iv \<le> j \<and> j < snd iv) \<longrightarrow>
         all_ports_core (fold class_core_interval ivs cur ! j)))"
proof (induction ivs arbitrary: cur)
  case Nil
  have "\<exists>k. x = (replace_py ''PORT'' class_core ^^ k) x" for x
    by (rule exI[of _ 0]) simp
  then show ?case by simp
next
  case (Cons iv ivs)
  obtain a b where iv: "iv = (a, b)" by (cases iv)
  let ?R = "replace_py ''PORT'' class_core"
  let ?c1 = "class_core_interval (a, b) cur"
  note n1 = class_core_interval_nth[of a b cur]
  note ih = Cons.IH[of ?c1]
  have len: "length (fold class_core_interval (iv # ivs) cur) = length cur"
    using ih n1 by (simp add: iv)
  have "(\<exists>k. fold class_core_interval (iv # ivs) cur ! j = (?R ^^ k) (cur ! j)) \<and>
      ((\<exists>iv'\<in>set (iv # ivs). fst iv' \<le> j \<and> j < snd iv') \<longrightarrow>
         all_ports_core (fold class_core_interval (iv # ivs) cur ! j))"
    if j: "j < length cur" for j
  proof -
    from j n1 have j1: "j < length ?c1" by simp
    from ih j1 obtain k where k: "fold class_core_interval ivs ?c1 ! j = (?R ^^ k) (?c1 ! j)"
      by blast
    have c1: "?c1 ! j = (if a \<le> j \<and> j < b \<and> is_in ''PORT'' (cur ! j) then ?R (cur ! j) else cur ! j)"
      using n1 j by blast
    have ex: "\<exists>k'. fold class_core_interval ivs ?c1 ! j = (?R ^^ k') (cur ! j)"
    proof (cases "a \<le> j \<and> j < b \<and> is_in ''PORT'' (cur ! j)")
      case True
      with c1 k have "fold class_core_interval ivs ?c1 ! j = (?R ^^ Suc k) (cur ! j)"
        by (simp add: funpow_swap1)
      then show ?thesis by blast
    next
      case False
      with c1 k show ?thesis by auto
    qed
    have ap: "all_ports_core (fold class_core_interval ivs ?c1 ! j)"
      if h: "\<exists>iv'\<in>set (iv # ivs). fst iv' \<le> j \<and> j < snd iv'"
    proof (cases "a \<le> j \<and> j < b")
      case True
      have "all_ports_core (?c1 ! j)"
        using c1 True by (auto simp: class_core_all_ports no_port_all_core)
      then show ?thesis
        unfolding k by (rule class_core_funpow_all_ports)
    next
      case False
      with h have "\<exists>iv'\<in>set ivs. fst iv' \<le> j \<and> j < snd iv'" by (auto simp: iv)
      with ih j1 show ?thesis by blast
    qed
    from ex ap show ?thesis by (simp add: iv)
  qed
  with len show ?case by blast
qed

lemma funpow_preserves:
  "(\<And>x. q (f x) = q x) \<Longrightarrow> q ((f ^^ k) x) = q x"
  by (induction k) simp_all

lemma funpow_invariant:
  "(\<And>x. P x \<Longrightarrow> P (f x)) \<Longrightarrow> P x \<Longrightarrow> P ((f ^^ k) x)"
  by (induction k) simp_all

lemma replace_py_keeps_newline:
  assumes "old \<noteq> []" and "CHR ''\<newline>'' \<notin> set old" and "x \<noteq> [] \<and> last x = CHR ''\<newline>''"
  shows "replace_py old new x \<noteq> [] \<and> last (replace_py old new x) = CHR ''\<newline>''"
proof -
  from assms(3) have "x = butlast x @ [CHR ''\<newline>'']"
    by (metis append_butlast_last_id)
  then have "replace_py old new x = replace_py old new (butlast x) @ [CHR ''\<newline>'']"
    using replace_py_snoc[OF assms(1,2), of new "butlast x"] by simp
  then show ?thesis by simp
qed

lemma force_spacer_nth:
  assumes "force_spacer cell sl = Inr out"
  shows "length out = length sl \<and>
         (\<forall>j<length sl. \<exists>k. out ! j = (replace_py ''AREAIO'' ''SPACER'' ^^ k) (sl ! j))"
proof -
  from assms obtain i where i: "i < length sl"
    and out: "out = sl[i := replace_py ''AREAIO'' ''SPACER'' (sl ! i)]"
    by (auto simp: force_spacer_def index_py_def split: sum.splits if_splits)
  have "\<exists>k. out ! j = (replace_py ''AREAIO'' ''SPACER'' ^^ k) (sl ! j)" if "j < length sl" for j
  proof (cases "j = i")
    case True
    with that out have "out ! j = (replace_py ''AREAIO'' ''SPACER'' ^^ 1) (sl ! j)" by simp
    then show ?thesis by blast
  next
    case False
    with out have "out ! j = (replace_py ''AREAIO'' ''SPACER'' ^^ 0) (sl ! j)" by simp
    then show ?thesis by blast
  qed
  with out show ?thesis by simp
qed

lemma force_spacers_nth:
  "force_spacers cells sl = Inr out \<Longrightarrow>
   length out = length sl \<and>
   (\<forall>j<length sl. \<exists>k. out ! j = (replace_py ''AREAIO'' ''SPACER'' ^^ k) (sl ! j))"
proof (induction cells arbitrary: sl)
  case Nil
  have "\<exists>k. x = (replace_py ''AREAIO'' ''SPACER'' ^^ k) x" for x
    by (rule exI[of _ 0]) simp
  with Nil show ?case by simp
next
  case (Cons cell cells)
  from Cons.prems obtain sl1 where s1: "force_spacer cell sl = Inr sl1"
    and r: "force_spacers cells sl1 = Inr out"
    by (auto split: sum.splits)
  note a = force_spacer_nth[OF s1]
  note b = Cons.IH[OF r]
  have "\<exists>k. out ! j = (replace_py ''AREAIO'' ''SPACER'' ^^ k) (sl ! j)" if j: "j < length sl" for j
  proof -
    from a j obtain k1 where "sl1 ! j = (replace_py ''AREAIO'' ''SPACER'' ^^ k1) (sl ! j)" by blast
    moreover from a b j obtain k2 where "out ! j = (replace_py ''AREAIO'' ''SPACER'' ^^ k2) (sl1 ! j)"
      by auto
    ultimately have "out ! j = (replace_py ''AREAIO'' ''SPACER'' ^^ (k2 + k1)) (sl ! j)"
      by (simp add: funpow_add)
    then show ?thesis by blast
  qed
  with a b show ?case by simp
qed

lemma count_occurrences_line:
  assumes "pat \<noteq> []" and "n \<notin> set pat"
  shows "count_occurrences pat (s @ n # t) = count_occurrences pat s + count_occurrences pat t"
proof (induction s)
  case Nil
  have "\<not> prefix pat (n # t)" using assms by (cases pat) auto
  then show ?case by simp
next
  case (Cons c s)
  have "prefix pat (c # s @ n # t) \<longleftrightarrow> prefix pat (c # s)"
  proof
    assume "prefix pat (c # s @ n # t)"
    then have "prefix pat ((c # s) @ n # t)" by simp
    then consider "prefix pat (c # s)" | us where "pat = (c # s) @ us" "prefix us (n # t)"
      unfolding prefix_append by blast
    then show "prefix pat (c # s)"
    proof cases
      case 1
      then show ?thesis .
    next
      case 2
      with assms(2) have "us = []" by (cases us) auto
      with 2 show ?thesis by simp
    qed
  next
    assume "prefix pat (c # s)"
    then show "prefix pat (c # s @ n # t)" by (metis append_Cons prefix_prefix)
  qed
  with Cons show ?case by simp
qed

lemma count_occurrences_concat:
  assumes "pat \<noteq> []" and "n \<notin> set pat"
  shows "\<forall>l\<in>set (butlast ls). l \<noteq> [] \<and> last l = n \<Longrightarrow>
         count_occurrences pat (concat ls) = sum_list (map (count_occurrences pat) ls)"
proof (induction ls)
  case Nil
  then show ?case by simp
next
  case (Cons l ls)
  show ?case
  proof (cases "ls = []")
    case True
    then show ?thesis by simp
  next
    case False
    with Cons.prems have l: "l \<noteq> [] \<and> last l = n"
      and r: "\<forall>l\<in>set (butlast ls). l \<noteq> [] \<and> last l = n" by simp_all
    from l have e: "l = butlast l @ [n]" by (metis append_butlast_last_id)
    have "count_occurrences pat (concat (l # ls)) =
          count_occurrences pat (butlast l @ n # concat ls)"
      by (subst e) simp
    also have "\<dots> = count_occurrences pat (butlast l) + count_occurrences pat (concat ls)"
      by (rule count_occurrences_line[OF assms])
    also have "count_occurrences pat (butlast l) = count_occurrences pat (butlast l @ n # [])"
      using count_occurrences_line[OF assms, of "butlast l" "[]"] by simp
    also have "butlast l @ n # [] = l" using e by simp
    finally show ?thesis using Cons.IH[OF r] by simp
  qed
qed

lemma concat_readlines: "concat (readlines s) = s"
  by (induction s) (auto split: list.splits)

lemma readlines_newlines:
  "\<forall>l\<in>set (butlast (readlines s)). l \<noteq> [] \<and> last l = CHR ''\<newline>''"
proof (induction s)
  case Nil
  then show ?case by simp
next
  case (Cons c s)
  show ?case
  proof (cases "c = CHR ''\<newline>''")
    case True
    with Cons show ?thesis by auto
  next
    case False
    show ?thesis
    proof (cases "readlines s")
      case Nil
      with False show ?thesis by simp
    next
      case (Cons l ls)
      with Cons.IH False show ?thesis
        by (cases "ls = []") auto
    qed
  qed
qed

lemma class_core_net_blocks:
  "class_core_net net cur = fold class_core_interval (pin_blocks net cur) cur"
  by (simp add: class_core_net_def pin_blocks_def Let_def)

lemma pin_blocks_bound:
  "(a, b) \<in> set (pin_blocks net sl) \<Longrightarrow> b < length sl"
  by (auto simp: pin_blocks_def indices_where_filter dest!: set_zip_rightD)

lemma io_lef_lines_shape:
  assumes "io_lef_lines sl = Inr out"
  shows "length out = length sl \<and>
         (\<forall>j<length sl.
            (\<exists>k1 k2. out ! j = (replace_py ''AREAIO'' ''SPACER'' ^^ k2)
                                 ((replace_py ''PORT'' class_core ^^ k1) (sl ! j))) \<and>
            ((\<exists>iv\<in>set (pin_blocks ''VCCD1'' sl) \<union> set (pin_blocks ''VSSD1'' sl).
                 fst iv \<le> j \<and> j < snd iv) \<longrightarrow> all_ports_core (out ! j)))"
proof -
  let ?R = "replace_py ''PORT'' class_core"
  let ?T = "replace_py ''AREAIO'' ''SPACER''"
  define sl1 where "sl1 = class_core_net ''VCCD1'' sl"
  define sl2 where "sl2 = class_core_net ''VSSD1'' sl1"
  note p1 = class_core_net_fold[of "pin_blocks ''VCCD1'' sl" sl,
      folded class_core_net_blocks, folded sl1_def]
  note p2 = class_core_net_fold[of "pin_blocks ''VSSD1'' sl1" sl1,
      folded class_core_net_blocks, folded sl2_def]
  from p1 have len1: "length sl1 = length sl" by simp
  from p2 have len2: "length sl2 = length sl" using len1 by simp
  have mk: "is_in w (sl1 ! j) = is_in w (sl ! j)"
    if "j < length sl" and "w = ''PIN VSSD1'' \<or> w = ''END VSSD1''" for w j
  proof -
    from p1 that(1) obtain k where "sl1 ! j = (?R ^^ k) (sl ! j)" by blast
    then show ?thesis
      using funpow_preserves[of "is_in w" ?R k "sl ! j"] class_core_keeps_marker[OF that(2)]
      by simp
  qed
  have blocks: "pin_blocks ''VSSD1'' sl1 = pin_blocks ''VSSD1'' sl"
    unfolding pin_blocks_def
    using indices_where_cong[of sl1 sl "is_in ''PIN VSSD1''"]
      indices_where_cong[of sl1 sl "is_in ''END VSSD1''"] mk len1
    by simp
  from assms have fs: "force_spacers
       [''sky130_ef_io__connect_vcchib_vccd_and_vswitch_vddio_slice_20um'',
        ''sky130_ef_io__disconnect_vccd_slice_5um'',
        ''sky130_ef_io__disconnect_vdda_slice_5um''] sl2 = Inr out"
    by (simp add: io_lef_lines_def sl2_def sl1_def)
  note p3 = force_spacers_nth[OF fs]
  from p3 len2 have len: "length out = length sl" by simp
  have "(\<exists>k1 k2. out ! j = (?T ^^ k2) ((?R ^^ k1) (sl ! j))) \<and>
        ((\<exists>iv\<in>set (pin_blocks ''VCCD1'' sl) \<union> set (pin_blocks ''VSSD1'' sl).
             fst iv \<le> j \<and> j < snd iv) \<longrightarrow> all_ports_core (out ! j))"
    if j: "j < length sl" for j
  proof -
    from p1 j obtain k1 where k1: "sl1 ! j = (?R ^^ k1) (sl ! j)" by blast
    from p2 j len1 obtain k1' where k1': "sl2 ! j = (?R ^^ k1') (sl1 ! j)" by auto
    from p3 j len2 obtain k2 where k2: "out ! j = (?T ^^ k2) (sl2 ! j)" by auto
    have "out ! j = (?T ^^ k2) ((?R ^^ (k1' + k1)) (sl ! j))"
      by (simp add: k2 k1' k1 funpow_add)
    then have ex: "\<exists>k1 k2. out ! j = (?T ^^ k2) ((?R ^^ k1) (sl ! j))" by blast
    have ap: "all_ports_core (out ! j)"
      if h: "\<exists>iv\<in>set (pin_blocks ''VCCD1'' sl) \<union> set (pin_blocks ''VSSD1'' sl).
                fst iv \<le> j \<and> j < snd iv"
    proof -
      have "all_ports_core (sl2 ! j)"
      proof (cases "\<exists>iv\<in>set (pin_blocks ''VCCD1'' sl). fst iv \<le> j \<and> j < snd iv")
        case True
        with p1 j have "all_ports_core (sl1 ! j)" by blast
        then show ?thesis unfolding k1' by (rule class_core_funpow_all_ports)
      next
        case False
        with h have "\<exists>iv\<in>set (pin_blocks ''VSSD1'' sl1). fst iv \<le> j \<and> j < snd iv"
          by (auto simp: blocks)
        with p2 j len1 show ?thesis by auto
      qed
      then show ?thesis
        unfolding k2 by (rule funpow_invariant[rotated]) (rule spacer_all_ports)
    qed
    from ex ap show ?thesis by blast
  qed
  with len show ?thesis by blast
qed

lemma io_lef_lines_count:
  assumes "io_lef_lines (readlines src) = Inr out"
  shows "count_occurrences ''PORT'' (concat out) = count_occurrences ''PORT'' src"
proof -
  let ?R = "replace_py ''PORT'' class_core"
  let ?T = "replace_py ''AREAIO'' ''SPACER''"
  let ?sl = "readlines src"
  let ?n = "CHR ''\<newline>''"
  note sh = io_lef_lines_shape[OF assms]
  then have len: "length out = length ?sl" by simp
  have line: "count_occurrences ''PORT'' (out ! j) = count_occurrences ''PORT'' (?sl ! j) \<and>
      (?sl ! j \<noteq> [] \<and> last (?sl ! j) = ?n \<longrightarrow> out ! j \<noteq> [] \<and> last (out ! j) = ?n)"
    if j: "j < length ?sl" for j
  proof -
    from sh j obtain k1 k2 where o: "out ! j = (?T ^^ k2) ((?R ^^ k1) (?sl ! j))" by blast
    have c: "count_occurrences ''PORT'' (out ! j) = count_occurrences ''PORT'' (?sl ! j)"
      unfolding o
      using funpow_preserves[of "count_occurrences ''PORT''" ?T k2, OF spacer_count]
        funpow_preserves[of "count_occurrences ''PORT''" ?R k1, OF class_core_count]
      by simp
    have "out ! j \<noteq> [] \<and> last (out ! j) = ?n" if e: "?sl ! j \<noteq> [] \<and> last (?sl ! j) = ?n"
    proof -
      have "(?R ^^ k1) (?sl ! j) \<noteq> [] \<and> last ((?R ^^ k1) (?sl ! j)) = ?n"
        by (rule funpow_invariant[where P = "\<lambda>x. x \<noteq> [] \<and> last x = ?n", OF _ e])
           (rule replace_py_keeps_newline, simp_all)
      then show ?thesis
        unfolding o
        by (rule funpow_invariant[where P = "\<lambda>x. x \<noteq> [] \<and> last x = ?n", rotated])
           (rule replace_py_keeps_newline, simp_all)
    qed
    with c show ?thesis by blast
  qed
  have nl: "\<forall>l\<in>set (butlast out). l \<noteq> [] \<and> last l = ?n"
  proof
    fix l assume "l \<in> set (butlast out)"
    then obtain j where j: "j < length (butlast out)" and l: "l = butlast out ! j"
      by (auto simp: in_set_conv_nth)
    then have j': "j < length ?sl - 1" using len by simp
    then have jl: "j < length ?sl" by simp
    have "butlast ?sl ! j \<in> set (butlast ?sl)" using j' by simp
    with readlines_newlines[of src] have "butlast ?sl ! j \<noteq> [] \<and> last (butlast ?sl ! j) = ?n"
      by blast
    then have "?sl ! j \<noteq> [] \<and> last (?sl ! j) = ?n"
      using j' by (simp add: nth_butlast)
    with line[OF jl] have "out ! j \<noteq> [] \<and> last (out ! j) = ?n" by blast
    then show "l \<noteq> [] \<and> last l = ?n"
      using j by (simp add: l nth_butlast)
  qed
  have "map (count_occurrences ''PORT'') out = map (count_occurrences ''PORT'') ?sl"
    using len line by (auto intro: nth_equalityI)
  then have "count_occurrences ''PORT'' (concat out) = sum_list (map (count_occurrences ''PORT'') ?sl)"
    using count_occurrences_concat[of "''PORT''" ?n out, OF _ _ nl] by simp
  also have "\<dots> = count_occurrences ''PORT'' (concat ?sl)"
    using count_occurrences_concat[of "''PORT''" ?n ?sl, OF _ _ readlines_newlines] by simp
  finally show ?thesis by (simp add: concat_readlines)
qed

lemma prefix_universal_newlines:
  "CHR 0x0D \<notin> set p \<Longrightarrow> CHR ''\<newline>'' \<notin> set p \<Longrightarrow>
   prefix p (universal_newlines s) = prefix p s"
proof (induction s arbitrary: p rule: universal_newlines.induct)
  case 1
  then show ?case by simp
next
  case (2 c)
  then show ?case by (cases p) auto
next
  case (3 c d cs)
  show ?case
  proof (cases p)
    case Nil
    then show ?thesis by simp
  next
    case (Cons a q)
    with "3.prems" have a: "a \<noteq> CHR 0x0D" "a \<noteq> CHR ''\<newline>''"
      and q: "CHR 0x0D \<notin> set q" "CHR ''\<newline>'' \<notin> set q" by auto
    show ?thesis
    proof (cases "c = CHR 0x0D")
      case True
      with a Cons show ?thesis by auto
    next
      case False
      with "3.IH"(3)[OF _ _ q] have "prefix q (universal_newlines (d # cs)) = prefix q (d # cs)"
        by simp
      with False Cons show ?thesis by simp
    qed
  qed
qed

lemma count_occurrences_universal_newlines:
  assumes "p \<noteq> []" and "CHR 0x0D \<notin> set p" and "CHR ''\<newline>'' \<notin> set p"
  shows "count_occurrences p (universal_newlines s) = count_occurrences p s"
proof (induction s rule: universal_newlines.induct)
  case 1
  then show ?case by simp
next
  case (2 c)
  from assms obtain a q where p: "p = a # q" and a: "a \<noteq> CHR 0x0D" "a \<noteq> CHR ''\<newline>''"
    by (cases p) auto
  then show ?case by auto
next
  case (3 c d cs)
  from assms obtain a q where p: "p = a # q" and a: "a \<noteq> CHR 0x0D" "a \<noteq> CHR ''\<newline>''"
    by (cases p) auto
  show ?case
  proof (cases "c = CHR 0x0D")
    case True
    show ?thesis
    proof (cases "d = CHR ''\<newline>''")
      case d: True
      with True "3.IH"(1) a show ?thesis by (simp add: p)
    next
      case d: False
      with True "3.IH"(2) a show ?thesis by (simp add: p)
    qed
  next
    case False
    have "prefix p (universal_newlines (c # d # cs)) = prefix p (c # d # cs)"
      using assms(2,3) by (rule prefix_universal_newlines)
    with False "3.IH"(3) show ?thesis by simp
  qed
qed

text \<open>
  C8: when \<open>setup_io_lefs\<close> returns, the destination holds the edited lines of the source;
  the number of occurrences of \<open>PORT\<close> in the destination equals the number in the source;
  and in every line of a \<open>PIN\<close> block of \<open>VCCD1\<close> or \<open>VSSD1\<close> each \<open>PORT\<close> is immediately
  followed by the line \<open>CLASS CORE ;\<close>.
\<close>

theorem setup_io_lefs_class_core:
  assumes "setup_io_lefs st fs = Inr fs'"
  shows "\<exists>sky130A src out.
           get_setting (settings st) ''technology.sky130.sky130A'' = SStr sky130A \<and>
           node_at fs (io_lef_source sky130A) = Some (File src) \<and>
           io_lef_lines (readlines (universal_newlines src)) = Inr out \<and>
           node_at fs' (io_lef_dest st) = Some (File (concat out)) \<and>
           length out = length (readlines (universal_newlines src)) \<and>
           count_occurrences ''PORT'' (concat out) = count_occurrences ''PORT'' src \<and>
           (\<forall>iv\<in>set (pin_blocks ''VCCD1'' (readlines (universal_newlines src))) \<union>
                 set (pin_blocks ''VSSD1'' (readlines (universal_newlines src))).
              \<forall>j. fst iv \<le> j \<and> j < snd iv \<longrightarrow> all_ports_core (out ! j))"
proof -
  from assms obtain sky130A where a: "get_setting (settings st) ''technology.sky130.sky130A'' = SStr sky130A"
    by (cases "get_setting (settings st) ''technology.sky130.sky130A''")
       (auto simp: setup_io_lefs_def)
  from assms a obtain fs1 content out where
    ex: "node_at fs (io_lef_source sky130A) \<noteq> None"
    and mk: "makedirs fs (pathlib_str (cache_dir st)) = Inr fs1"
    and op: "open_source_dest fs1 (io_lef_source sky130A) (io_lef_dest st) = Inr content"
    and ls: "io_lef_lines (readlines content) = Inr out"
    and fs': "fs' = write_file fs1 (io_lef_dest st) (concat out)"
    by (auto simp: setup_io_lefs_def io_lef_source_def io_lef_dest_def Let_def
             split: sum.splits if_splits)
  have ne: "content \<noteq> []"
  proof
    assume "content = []"
    with ls show False
      by (simp add: io_lef_lines_def class_core_net_def class_core_interval_def
            indices_where_def force_spacer_def index_py_def)
  qed
  from op ne obtain src where s1: "node_at fs1 (io_lef_source sky130A) = Some (File src)"
    and c: "content = universal_newlines src"
    by (auto simp: open_source_dest_def split: option.splits node.splits if_splits)
  from mk s1 have s: "node_at fs (io_lef_source sky130A) = Some (File src)"
    by (auto simp: makedirs_def node_at_def split: option.splits node.splits if_splits)
  from mk have r: "resolve fs1 = resolve fs"
    by (auto simp: makedirs_def split: option.splits node.splits)
  let ?text = "universal_newlines src"
  note sh = io_lef_lines_shape[OF ls[unfolded c]]
  have blocks: "\<forall>iv\<in>set (pin_blocks ''VCCD1'' (readlines ?text)) \<union> set (pin_blocks ''VSSD1'' (readlines ?text)).
              \<forall>j. fst iv \<le> j \<and> j < snd iv \<longrightarrow> all_ports_core (out ! j)"
  proof (intro ballI allI impI)
    fix iv j
    assume iv: "iv \<in> set (pin_blocks ''VCCD1'' (readlines ?text)) \<union> set (pin_blocks ''VSSD1'' (readlines ?text))"
      and j: "fst iv \<le> j \<and> j < snd iv"
    from iv have "snd iv < length (readlines ?text)"
      using pin_blocks_bound[of "fst iv" "snd iv"] by auto
    with j have "j < length (readlines ?text)" by simp
    with sh iv j show "all_ports_core (out ! j)" by blast
  qed
  have cnt: "count_occurrences ''PORT'' (concat out) = count_occurrences ''PORT'' src"
    using io_lef_lines_count[OF ls[unfolded c]]
    by (simp add: count_occurrences_universal_newlines)
  have dst: "node_at fs' (io_lef_dest st) = Some (File (concat out))"
    by (simp add: fs' write_file_def node_at_def)
  from sh have len: "length out = length (readlines ?text)" by simp
  from a s ls[unfolded c] dst len cnt blocks show ?thesis by blast
qed

lemma Inr_projr: "\<not> isl r \<Longrightarrow> r = Inr (projr r)"
  by (cases r) simp_all

lemma example_io_lef_lines:
  "io_lef_lines (readlines example_io_lef) =
     Inr [''MACRO sky130_ef_io__connect_vcchib_vccd_and_vswitch_vddio_slice_20um\<newline>'',
          ''  CLASS PAD SPACER ;\<newline>'',
          ''MACRO sky130_ef_io__disconnect_vccd_slice_5um\<newline>'',
          ''  CLASS PAD SPACER ;\<newline>'',
          ''MACRO sky130_ef_io__disconnect_vdda_slice_5um\<newline>'',
          ''  CLASS PAD SPACER ;\<newline>'',
          ''  PIN VCCD1\<newline>'',
          ''    PORT\<newline>      CLASS CORE ;\<newline>'',
          ''      LAYER met3 ;\<newline>'',
          ''    END\<newline>'',
          ''  END VCCD1\<newline>'',
          ''  PIN AMUXBUS_A\<newline>'',
          ''    PORT\<newline>'',
          ''  END AMUXBUS_A\<newline>'']"
  by code_simp

theorem setup_io_lefs_class_core_witness:
  "\<not> isl (setup_io_lefs (example_tech_of ''sky130_fd_sc_hd'') (example_fs example_verilog)) \<and>
   node_at (projr (setup_io_lefs (example_tech_of ''sky130_fd_sc_hd'') (example_fs example_verilog)))
       ''cache/sky130_ef_io.lef''
     = Some (File (concat (projr (io_lef_lines (readlines example_io_lef))))) \<and>
   count_occurrences ''PORT'' (concat (projr (io_lef_lines (readlines example_io_lef)))) = 2 \<and>
   count_occurrences ''PORT'' example_io_lef = 2 \<and>
   pin_blocks ''VCCD1'' (readlines example_io_lef) = [(6, 10)] \<and>
   projr (io_lef_lines (readlines example_io_lef)) ! 7 = ''    PORT\<newline>      CLASS CORE ;\<newline>'' \<and>
   all_ports_core (projr (io_lef_lines (readlines example_io_lef)) ! 7)"
proof -
  let ?st = "example_tech_of ''sky130_fd_sc_hd''"
  let ?fs = "example_fs example_verilog"
  have a: "\<not> isl (setup_io_lefs ?st ?fs)"
    by code_simp
  then have a': "setup_io_lefs ?st ?fs = Inr (projr (setup_io_lefs ?st ?fs))"
    by (rule Inr_projr)
  from setup_io_lefs_class_core[OF a'] obtain sky130A src out where
    s: "get_setting (settings ?st) ''technology.sky130.sky130A'' = SStr sky130A"
    and f: "node_at ?fs (io_lef_source sky130A) = Some (File src)"
    and o: "io_lef_lines (readlines (universal_newlines src)) = Inr out"
    and d: "node_at (projr (setup_io_lefs ?st ?fs)) (io_lef_dest ?st) = Some (File (concat out))"
    and c: "count_occurrences ''PORT'' (concat out) = count_occurrences ''PORT'' src"
    and b: "\<forall>iv\<in>set (pin_blocks ''VCCD1'' (readlines (universal_newlines src))) \<union>
                 set (pin_blocks ''VSSD1'' (readlines (universal_newlines src))).
              \<forall>j. fst iv \<le> j \<and> j < snd iv \<longrightarrow> all_ports_core (out ! j)"
    by blast
  have s': "get_setting (settings ?st) ''technology.sky130.sky130A'' = SStr ''/pdk''"
    by (simp add: example_tech_of_def get_setting_def)
  with s have k: "sky130A = ''/pdk''" by simp
  have f': "node_at ?fs (io_lef_source ''/pdk'') = Some (File example_io_lef)"
    by code_simp
  with f k have src: "src = example_io_lef" by simp
  have un: "universal_newlines example_io_lef = example_io_lef"
    by code_simp
  have dst: "io_lef_dest ?st = ''cache/sky130_ef_io.lef''"
    by code_simp
  have out: "out = projr (io_lef_lines (readlines example_io_lef))"
    using o src un by simp
  have cnt: "count_occurrences ''PORT'' example_io_lef = 2"
    by code_simp
  have pb: "pin_blocks ''VCCD1'' (readlines example_io_lef) = [(6, 10)]"
    by code_simp
  have l7: "projr (io_lef_lines (readlines example_io_lef)) ! 7 = ''    PORT\<newline>      CLASS CORE ;\<newline>''"
    by (simp add: example_io_lef_lines)
  from b pb src un have "all_ports_core (out ! 7)"
    by simp
  with a d c cnt pb l7 show ?thesis
    by (simp add: out[symmetric] src dst)
qed

subsection \<open>Idempotence of the patch engine\<close>

lemma patch_job_shape:
  assumes "patch_job cache (msg, src, dst, edit) fs = Inr fs'"
  shows "\<exists>c body. node_at fs src = Some (File c) \<and>
           (resolve fs src = resolve fs dst \<longrightarrow> edit [] = Inr body) \<and>
           (resolve fs src \<noteq> resolve fs dst \<longrightarrow> edit (universal_newlines c) = Inr body) \<and>
           fs' = fs\<lparr> nodes := (nodes fs)(resolve fs cache \<mapsto> Dir, resolve fs dst \<mapsto> File body) \<rparr> \<and>
           resolve fs src \<noteq> resolve fs cache \<and> resolve fs dst \<noteq> resolve fs cache \<and>
           (\<forall>x. node_at fs cache \<noteq> Some (File x)) \<and> node_at fs dst \<noteq> Some Dir"
  using assms
  by (auto simp: patch_job_def makedirs_def open_source_dest_def write_file_def node_at_def
           split: if_splits option.splits node.splits sum.splits)

lemma patch_job_run:
  assumes "node_at fs src = Some (File c)"
    and "resolve fs src = resolve fs dst \<longrightarrow> edit [] = Inr body"
    and "resolve fs src \<noteq> resolve fs dst \<longrightarrow> edit (universal_newlines c) = Inr body"
    and "resolve fs src \<noteq> resolve fs cache" and "resolve fs dst \<noteq> resolve fs cache"
    and "\<forall>x. node_at fs cache \<noteq> Some (File x)" and "node_at fs dst \<noteq> Some Dir"
  shows "patch_job cache (msg, src, dst, edit) fs =
           Inr (fs\<lparr> nodes := (nodes fs)(resolve fs cache \<mapsto> Dir, resolve fs dst \<mapsto> File body) \<rparr>)"
  using assms
  by (auto simp: patch_job_def makedirs_def open_source_dest_def write_file_def node_at_def
           split: option.splits node.splits sum.splits)

lemma patch_job_resolve:
  assumes "patch_job cache j fs = Inr g"
  shows "resolve g = resolve fs"
proof -
  obtain msg src dst edit where j: "j = (msg, src, dst, edit)" by (cases j)
  from patch_job_shape[OF assms[unfolded j]] show ?thesis by auto
qed

lemma run_jobs_resolve:
  "run_jobs cache js fs = Inr g \<Longrightarrow> resolve g = resolve fs"
proof (induction js arbitrary: fs)
  case Nil
  then show ?case by simp
next
  case (Cons j js)
  from Cons.prems obtain g1 where a: "patch_job cache j fs = Inr g1"
    and b: "run_jobs cache js g1 = Inr g" by (auto split: sum.splits)
  from Cons.IH[OF b] patch_job_resolve[OF a] show ?case by simp
qed

lemma patch_job_idem:
  assumes "patch_job cache j fs = Inr g"
  shows "patch_job cache j g = Inr g"
proof -
  obtain msg src dst edit where j: "j = (msg, src, dst, edit)" by (cases j)
  from patch_job_shape[OF assms[unfolded j]] obtain c body where
    s: "node_at fs src = Some (File c)"
    and e: "resolve fs src = resolve fs dst \<longrightarrow> edit [] = Inr body"
           "resolve fs src \<noteq> resolve fs dst \<longrightarrow> edit (universal_newlines c) = Inr body"
    and g: "g = fs\<lparr> nodes := (nodes fs)(resolve fs cache \<mapsto> Dir, resolve fs dst \<mapsto> File body) \<rparr>"
    and n: "resolve fs src \<noteq> resolve fs cache" "resolve fs dst \<noteq> resolve fs cache" by blast
  have r: "resolve g = resolve fs" by (simp add: g)
  have gs: "node_at g src = Some (File (if resolve fs src = resolve fs dst then body else c))"
    using s n by (simp add: g node_at_def)
  have e1: "resolve g src = resolve g dst \<longrightarrow> edit [] = Inr body"
    using e by (simp add: r)
  have e2: "resolve g src \<noteq> resolve g dst \<longrightarrow>
      edit (universal_newlines (if resolve fs src = resolve fs dst then body else c)) = Inr body"
    using e by (simp add: r)
  have "patch_job cache (msg, src, dst, edit) g =
      Inr (g\<lparr> nodes := (nodes g)(resolve g cache \<mapsto> Dir, resolve g dst \<mapsto> File body) \<rparr>)"
    by (rule patch_job_run[where fs = g and edit = edit and src = src and dst = dst, OF gs e1 e2])
       (simp_all add: g n n[symmetric] node_at_def)
  also have "g\<lparr> nodes := (nodes g)(resolve g cache \<mapsto> Dir, resolve g dst \<mapsto> File body) \<rparr> = g"
    using n by (auto simp: g)
  finally show ?thesis by (simp add: j)
qed

lemma patch_job_regenerated:
  assumes "patch_job cache j fs = Inr g"
    and "resolve fs (job_source j) \<noteq> resolve fs (job_dest j)"
  shows "regenerated j fs g"
proof -
  obtain msg src dst edit where j: "j = (msg, src, dst, edit)" by (cases j)
  from assms(2) have d: "resolve fs src \<noteq> resolve fs dst"
    by (simp add: j job_source_def job_dest_def)
  from patch_job_shape[OF assms(1)[unfolded j]] d obtain c body where
    s: "node_at fs src = Some (File c)"
    and e: "edit (universal_newlines c) = Inr body"
    and g: "g = fs\<lparr> nodes := (nodes fs)(resolve fs cache \<mapsto> Dir, resolve fs dst \<mapsto> File body) \<rparr>"
    and n: "resolve fs src \<noteq> resolve fs cache" "resolve fs dst \<noteq> resolve fs cache" by blast
  from s e d n show ?thesis
    by (simp add: regenerated_def j job_source_def job_dest_def job_edit_def g node_at_def)
qed

text \<open>
  When the source and the destination are one file, the job that returns has overwritten
  its source with the edit of the empty text: opening the destination truncated the file
  before it was read.
\<close>

lemma patch_job_aliased:
  assumes "patch_job cache j fs = Inr g"
    and "resolve fs (job_source j) = resolve fs (job_dest j)"
  shows "\<exists>body. job_edit j [] = Inr body \<and> node_at g (job_source j) = Some (File body)"
proof -
  obtain msg src dst edit where j: "j = (msg, src, dst, edit)" by (cases j)
  from assms(2) have d: "resolve fs src = resolve fs dst"
    by (simp add: j job_source_def job_dest_def)
  from patch_job_shape[OF assms(1)[unfolded j]] d obtain body where
    e: "edit [] = Inr body"
    and g: "g = fs\<lparr> nodes := (nodes fs)(resolve fs cache \<mapsto> Dir, resolve fs dst \<mapsto> File body) \<rparr>"
    by auto
  from e d show ?thesis
    by (simp add: j job_source_def job_edit_def g node_at_def)
qed

lemma setup_cdl_linked_example:
  "\<not> isl (setup_cdl (example_tech_of ''sky130_fd_sc_hd'') example_fs_linked) \<and>
   node_at (projr (setup_cdl (example_tech_of ''sky130_fd_sc_hd'') example_fs_linked))
       ''/pdk/libs.ref/sky130_fd_sc_hd/cdl/sky130_fd_sc_hd.cdl''
     = Some (File ''*.SCALE MICRON\<newline>'') \<and>
   \<not> unaliased example_fs_linked
       [cdl_job (example_tech_of ''sky130_fd_sc_hd'') ''/pdk'' ''sky130_fd_sc_hd'']"
  by code_simp

lemma regenerated_shape:
  assumes "regenerated j fs g"
  shows "\<exists>c body. node_at fs (job_source j) = Some (File c) \<and>
           node_at g (job_source j) = Some (File c) \<and>
           job_edit j (universal_newlines c) = Inr body \<and>
           node_at g (job_dest j) = Some (File body)"
  using assms
  by (auto simp: regenerated_def split: option.splits node.splits sum.splits)

lemma regenerated_intro:
  assumes "node_at fs (job_source j) = Some (File c)"
    and "node_at g (job_source j) = Some (File c)"
    and "job_edit j (universal_newlines c) = Inr body"
    and "node_at g (job_dest j) = Some (File body)"
  shows "regenerated j fs g"
  using assms by (simp add: regenerated_def)

lemma regenerated_step:
  assumes reg: "regenerated j fs g"
    and run: "patch_job cache j' g = Inr g'"
    and sep: "resolve g (job_source j) \<noteq> resolve g (job_dest j')"
             "resolve g (job_dest j) \<noteq> resolve g (job_dest j')"
  shows "regenerated j fs g'"
proof -
  obtain msg' src' dst' edit' where j': "j' = (msg', src', dst', edit')" by (cases j')
  from regenerated_shape[OF reg] obtain c body where
    a: "node_at fs (job_source j) = Some (File c)"
    and b: "node_at g (job_source j) = Some (File c)"
    and e: "job_edit j (universal_newlines c) = Inr body"
    and d: "node_at g (job_dest j) = Some (File body)" by blast
  from patch_job_shape[OF run[unfolded j']] obtain body' where
    g': "g' = g\<lparr> nodes := (nodes g)(resolve g cache \<mapsto> Dir, resolve g dst' \<mapsto> File body') \<rparr>"
    and nf: "\<forall>x. node_at g cache \<noteq> Some (File x)" by blast
  from b nf have n1: "resolve g (job_source j) \<noteq> resolve g cache"
    by (auto simp: node_at_def)
  from d nf have n2: "resolve g (job_dest j) \<noteq> resolve g cache"
    by (auto simp: node_at_def)
  from sep have sep': "resolve g (job_source j) \<noteq> resolve g dst'"
    "resolve g (job_dest j) \<noteq> resolve g dst'" by (simp_all add: j' job_dest_def)
  have b': "node_at g' (job_source j) = Some (File c)"
    using b n1 sep' by (simp add: g' node_at_def)
  have d': "node_at g' (job_dest j) = Some (File body)"
    using d n2 sep' by (simp add: g' node_at_def)
  from a b' e d' show ?thesis by (rule regenerated_intro)
qed

lemma regenerated_run:
  "regenerated j fs g \<Longrightarrow> run_jobs cache js g = Inr g' \<Longrightarrow>
   list_all (\<lambda>j'. resolve g (job_source j) \<noteq> resolve g (job_dest j') \<and>
                  resolve g (job_dest j) \<noteq> resolve g (job_dest j')) js \<Longrightarrow>
   regenerated j fs g'"
proof (induction js arbitrary: g)
  case Nil
  then show ?case by simp
next
  case (Cons j' js)
  from Cons.prems(2) obtain g1 where a: "patch_job cache j' g = Inr g1"
    and b: "run_jobs cache js g1 = Inr g'" by (auto split: sum.splits)
  from Cons.prems(3) have sep: "resolve g (job_source j) \<noteq> resolve g (job_dest j')"
      "resolve g (job_dest j) \<noteq> resolve g (job_dest j')"
    and rest: "list_all (\<lambda>j'. resolve g (job_source j) \<noteq> resolve g (job_dest j') \<and>
                  resolve g (job_dest j) \<noteq> resolve g (job_dest j')) js"
    by simp_all
  from regenerated_step[OF Cons.prems(1) a sep] have r1: "regenerated j fs g1" .
  from rest have rest': "list_all (\<lambda>j'. resolve g1 (job_source j) \<noteq> resolve g1 (job_dest j') \<and>
                  resolve g1 (job_dest j) \<noteq> resolve g1 (job_dest j')) js"
    by (simp add: patch_job_resolve[OF a])
  from Cons.IH[OF r1 b rest'] show ?case .
qed

lemma regenerated_from:
  assumes reg: "regenerated j g g'"
    and run: "patch_job cache j0 fs = Inr g"
    and sep: "resolve fs (job_source j) \<noteq> resolve fs (job_dest j0)"
  shows "regenerated j fs g'"
proof -
  obtain msg0 src0 dst0 edit0 where j0: "j0 = (msg0, src0, dst0, edit0)" by (cases j0)
  from regenerated_shape[OF reg] obtain c body where
    a: "node_at g (job_source j) = Some (File c)"
    and b: "node_at g' (job_source j) = Some (File c)"
    and e: "job_edit j (universal_newlines c) = Inr body"
    and d: "node_at g' (job_dest j) = Some (File body)" by blast
  from patch_job_shape[OF run[unfolded j0]] obtain body0 where
    g: "g = fs\<lparr> nodes := (nodes fs)(resolve fs cache \<mapsto> Dir, resolve fs dst0 \<mapsto> File body0) \<rparr>"
    and n: "resolve fs dst0 \<noteq> resolve fs cache" by blast
  from sep have sep': "resolve fs (job_source j) \<noteq> resolve fs dst0"
    by (simp add: j0 job_dest_def)
  have "node_at fs (job_source j) = Some (File c)"
    using a sep' n by (auto simp: g node_at_def split: if_splits)
  from this b e d show ?thesis by (rule regenerated_intro)
qed

lemma unaliased_Cons:
  assumes "unaliased fs (j # js)" and "resolve g = resolve fs"
  shows "unaliased g js"
    and "resolve fs (job_source j) \<noteq> resolve fs (job_dest j)"
    and "list_all (\<lambda>j'. resolve g (job_source j) \<noteq> resolve g (job_dest j') \<and>
                        resolve g (job_dest j) \<noteq> resolve g (job_dest j')) js"
    and "list_all (\<lambda>j'. resolve fs (job_source j') \<noteq> resolve fs (job_dest j)) js"
  using assms by (auto simp: unaliased_def list_all_iff)

lemma run_jobs_regenerated:
  "run_jobs cache js fs = Inr fs' \<Longrightarrow> unaliased fs js \<Longrightarrow>
   list_all (\<lambda>j. regenerated j fs fs') js"
proof (induction js arbitrary: fs)
  case Nil
  then show ?case by simp
next
  case (Cons j js)
  from Cons.prems(1) obtain g where a: "patch_job cache j fs = Inr g"
    and b: "run_jobs cache js g = Inr fs'" by (auto split: sum.splits)
  note r = patch_job_resolve[OF a]
  note u = unaliased_Cons[OF Cons.prems(2) r]
  from patch_job_regenerated[OF a u(2)] have "regenerated j fs g" .
  from regenerated_run[OF this b u(3)] have hd: "regenerated j fs fs'" .
  from Cons.IH[OF b u(1)] have ih: "list_all (\<lambda>j. regenerated j g fs') js" .
  have "regenerated j' fs fs'" if m: "j' \<in> set js" for j'
  proof -
    from ih m have x: "regenerated j' g fs'" by (simp add: list_all_iff)
    from u(4) m have y: "resolve fs (job_source j') \<noteq> resolve fs (job_dest j)"
      by (simp add: list_all_iff)
    from x a y show ?thesis by (rule regenerated_from)
  qed
  with hd show ?case by (simp add: list_all_iff)
qed

lemma patch_job_stable_step:
  assumes st: "patch_job cache j g = Inr g"
    and run: "patch_job cache j' g = Inr g'"
    and sep: "resolve g (job_source j) \<noteq> resolve g (job_dest j')"
             "resolve g (job_dest j) \<noteq> resolve g (job_dest j')"
  shows "patch_job cache j g' = Inr g'"
proof -
  obtain msg src dst edit where j: "j = (msg, src, dst, edit)" by (cases j)
  obtain msg' src' dst' edit' where j': "j' = (msg', src', dst', edit')" by (cases j')
  from sep have sep': "resolve g src \<noteq> resolve g dst'" "resolve g dst \<noteq> resolve g dst'"
    by (simp_all add: j j' job_source_def job_dest_def)
  from patch_job_shape[OF st[unfolded j]] obtain c body where
    s: "node_at g src = Some (File c)"
    and e: "resolve g src = resolve g dst \<longrightarrow> edit [] = Inr body"
           "resolve g src \<noteq> resolve g dst \<longrightarrow> edit (universal_newlines c) = Inr body"
    and g: "g = g\<lparr> nodes := (nodes g)(resolve g cache \<mapsto> Dir, resolve g dst \<mapsto> File body) \<rparr>"
    and n: "resolve g src \<noteq> resolve g cache" "resolve g dst \<noteq> resolve g cache" by blast
  from g have "nodes g = (nodes g)(resolve g cache \<mapsto> Dir, resolve g dst \<mapsto> File body)"
    by (metis filesystem.select_convs(2) filesystem.surjective filesystem.update_convs(2))
  then have gc: "nodes g (resolve g cache) = Some Dir"
    and gd: "nodes g (resolve g dst) = Some (File body)"
    using n by (metis fun_upd_other fun_upd_same)+
  from patch_job_shape[OF run[unfolded j']] obtain body' where
    g': "g' = g\<lparr> nodes := (nodes g)(resolve g cache \<mapsto> Dir, resolve g dst' \<mapsto> File body') \<rparr>"
    and n': "resolve g dst' \<noteq> resolve g cache" by blast
  have r: "resolve g' = resolve g" by (simp add: g')
  have s': "node_at g' src = Some (File c)" using s sep' n by (simp add: g' node_at_def)
  have e1: "resolve g' src = resolve g' dst \<longrightarrow> edit [] = Inr body"
    and e2: "resolve g' src \<noteq> resolve g' dst \<longrightarrow> edit (universal_newlines c) = Inr body"
    using e by (simp_all add: r)
  have "patch_job cache (msg, src, dst, edit) g' =
      Inr (g'\<lparr> nodes := (nodes g')(resolve g' cache \<mapsto> Dir, resolve g' dst \<mapsto> File body) \<rparr>)"
    by (rule patch_job_run[where fs = g' and edit = edit and src = src and dst = dst, OF s' e1 e2])
       (simp_all add: g' gc gd n n' sep' n[symmetric] n'[symmetric] sep'[symmetric] node_at_def)
  also have "(nodes g')(resolve g' cache \<mapsto> Dir, resolve g' dst \<mapsto> File body) = nodes g'"
    using n n' sep' gc gd by (auto simp: g' fun_eq_iff)
  finally show ?thesis by (simp add: j)
qed

lemma patch_job_stable_run:
  "patch_job cache j g = Inr g \<Longrightarrow> run_jobs cache js g = Inr g' \<Longrightarrow>
   list_all (\<lambda>j'. resolve g (job_source j) \<noteq> resolve g (job_dest j') \<and>
                  resolve g (job_dest j) \<noteq> resolve g (job_dest j')) js \<Longrightarrow>
   patch_job cache j g' = Inr g'"
proof (induction js arbitrary: g)
  case Nil
  then show ?case by simp
next
  case (Cons j' js)
  from Cons.prems(2) obtain g1 where a: "patch_job cache j' g = Inr g1"
    and b: "run_jobs cache js g1 = Inr g'" by (auto split: sum.splits)
  from Cons.prems(3) have sep: "resolve g (job_source j) \<noteq> resolve g (job_dest j')"
      "resolve g (job_dest j) \<noteq> resolve g (job_dest j')"
    and rest: "list_all (\<lambda>j'. resolve g (job_source j) \<noteq> resolve g (job_dest j') \<and>
                  resolve g (job_dest j) \<noteq> resolve g (job_dest j')) js"
    by simp_all
  from patch_job_stable_step[OF Cons.prems(1) a sep] have s1: "patch_job cache j g1 = Inr g1" .
  from rest have rest': "list_all (\<lambda>j'. resolve g1 (job_source j) \<noteq> resolve g1 (job_dest j') \<and>
                  resolve g1 (job_dest j) \<noteq> resolve g1 (job_dest j')) js"
    by (simp add: patch_job_resolve[OF a])
  from Cons.IH[OF s1 b rest'] show ?case .
qed

lemma run_jobs_idem:
  "unaliased fs js \<Longrightarrow> run_jobs cache js fs = Inr fs' \<Longrightarrow> run_jobs cache js fs' = Inr fs'"
proof (induction js arbitrary: fs)
  case Nil
  then show ?case by simp
next
  case (Cons j js)
  from Cons.prems(2) obtain g where a: "patch_job cache j fs = Inr g"
    and b: "run_jobs cache js g = Inr fs'" by (auto split: sum.splits)
  note r = patch_job_resolve[OF a]
  note u = unaliased_Cons[OF Cons.prems(1) r]
  from patch_job_stable_run[OF patch_job_idem[OF a] b u(3)]
  have "patch_job cache j fs' = Inr fs'" .
  moreover from Cons.IH[OF u(1) b] have "run_jobs cache js fs' = Inr fs'" .
  ultimately show ?case by simp
qed


lemma setup_cdl_job:
  "get_setting (settings st) ''technology.sky130.sky130A'' = SStr dir \<Longrightarrow>
   library_name st = Some lib \<Longrightarrow>
   setup_cdl st fs = patch_job (pathlib_str (cache_dir st)) (cdl_job st dir lib) fs"
  by (auto simp: setup_cdl_def patch_job_def cdl_job_def cdl_devices_def Let_def
           split: sum.splits)

lemma setup_techlef_job:
  "get_setting (settings st) ''technology.sky130.sky130A'' = SStr dir \<Longrightarrow>
   library_name st = Some lib \<Longrightarrow>
   setup_techlef st fs = patch_job (pathlib_str (cache_dir st)) (techlef_job st dir lib) fs"
  by (auto simp: setup_techlef_def patch_job_def techlef_job_def Let_def split: sum.splits)

lemma setup_io_lefs_job:
  "get_setting (settings st) ''technology.sky130.sky130A'' = SStr dir \<Longrightarrow>
   setup_io_lefs st fs = patch_job (pathlib_str (cache_dir st)) (io_lef_job st dir) fs"
  by (auto simp: setup_io_lefs_def patch_job_def io_lef_job_def io_lef_source_def io_lef_dest_def
           Let_def split: sum.splits)

lemma setup_verilog_library_job:
  "setup_verilog_library st dir lib fs =
     patch_job (pathlib_str (cache_dir st)) (verilog_job st dir lib) fs"
  by (auto simp: setup_verilog_library_def patch_job_def verilog_job_def verilog_edit_def
           read_file_def write_file_def node_at_def Let_def split: sum.splits)

lemma setup_verilog_primitives_job:
  "setup_verilog_primitives st dir lib fs =
     patch_job (pathlib_str (cache_dir st)) (primitives_job st dir lib) fs"
  by (auto simp: setup_verilog_primitives_def patch_job_def primitives_job_def Let_def
           split: sum.splits)

lemma setup_verilog_jobs:
  "get_setting (settings st) ''technology.sky130.sky130A'' = SStr dir \<Longrightarrow>
   library_name st = Some lib \<Longrightarrow>
   setup_verilog st fs =
     run_jobs (pathlib_str (cache_dir st)) [verilog_job st dir lib, primitives_job st dir lib] fs"
  by (simp add: setup_verilog_def setup_verilog_library_job setup_verilog_primitives_job
        split: sum.splits)

lemma run_jobs_single: "run_jobs cache [j] fs = patch_job cache j fs"
  by (simp split: sum.splits)

lemma jobs_same_settings:
  assumes "settings st' = settings st" and "cache_dir st' = cache_dir st"
  shows "install_jobs st' dir = install_jobs st dir"
  using assms
  by (simp add: install_jobs_def cdl_job_def verilog_job_def primitives_job_def techlef_job_def
        io_lef_job_def io_lef_dest_def)

lemma run_jobs_append:
  "run_jobs cache (js @ ks) fs =
     (case run_jobs cache js fs of Inl e \<Rightarrow> Inl e | Inr fs1 \<Rightarrow> run_jobs cache ks fs1)"
  by (induction js arbitrary: fs) (auto split: sum.splits)

lemma post_install_script_jobs:
  assumes "get_setting (settings st) ''technology.sky130.sky130A'' = SStr dir"
  shows "post_install_script st fs =
     (case path_setting (get_setting (settings st) ''technology.sky130.sram22_sky130_macros'') of
        Inl e \<Rightarrow> Inl e
      | Inr macros \<Rightarrow>
          (case run_jobs (pathlib_str (cache_dir st)) (install_jobs st dir) fs of
             Inl e \<Rightarrow> Inl e
           | Inr fs' \<Rightarrow>
               Inr (st\<lparr> library_name := Some ''sky130_fd_sc_hd'',
                        use_sram22 := Some (node_at fs macros \<noteq> None) \<rparr>, fs')))"
proof (cases "path_setting (get_setting (settings st) ''technology.sky130.sram22_sky130_macros'')")
  case (Inl e)
  then show ?thesis by (simp add: post_install_script_def Let_def)
next
  case (Inr macros)
  let ?st = "st\<lparr> library_name := Some ''sky130_fd_sc_hd'', use_sram22 := Some (node_at fs macros \<noteq> None) \<rparr>"
  have a: "get_setting (settings ?st) ''technology.sky130.sky130A'' = SStr dir"
    using assms by simp
  have l: "library_name ?st = Some ''sky130_fd_sc_hd''" by simp
  have j: "cdl_job ?st dir = cdl_job st dir" "verilog_job ?st dir = verilog_job st dir"
    "primitives_job ?st dir = primitives_job st dir" "techlef_job ?st dir = techlef_job st dir"
    "io_lef_job ?st dir = io_lef_job st dir"
    by (simp_all add: cdl_job_def verilog_job_def primitives_job_def techlef_job_def
          io_lef_job_def io_lef_dest_def fun_eq_iff)
  show ?thesis
    unfolding post_install_script_def Let_def
    using Inr
    by (simp add: setup_cdl_job[OF a l] setup_verilog_jobs[OF a l] setup_techlef_job[OF a l]
          setup_io_lefs_job[OF a] j install_jobs_def del: not_None_eq split: sum.splits)
qed

lemma post_install_script_idem:
  assumes "post_install_script st fs = Inr (st', fs')"
    and "get_setting (settings st) ''technology.sky130.sky130A'' = SStr dir"
    and "unaliased fs (install_jobs st dir)"
    and "settings st2 = settings st" and "cache_dir st2 = cache_dir st"
  shows "\<exists>st''. post_install_script st2 fs' = Inr (st'', fs')"
proof -
  note d = assms(2)
  from assms(1) obtain macros where
    m: "path_setting (get_setting (settings st) ''technology.sky130.sram22_sky130_macros'') = Inr macros"
    and r: "run_jobs (pathlib_str (cache_dir st)) (install_jobs st dir) fs = Inr fs'"
    unfolding post_install_script_jobs[OF d] by (auto split: sum.splits)
  from run_jobs_idem[OF assms(3) r]
  have "run_jobs (pathlib_str (cache_dir st)) (install_jobs st dir) fs' = Inr fs'" .
  then have "run_jobs (pathlib_str (cache_dir st2)) (install_jobs st2 dir) fs' = Inr fs'"
    using jobs_same_settings[OF assms(4,5)] assms(5) by simp
  moreover have "get_setting (settings st2) ''technology.sky130.sky130A'' = SStr dir"
    using d assms(4) by simp
  ultimately show ?thesis
    using m assms(4) by (simp add: post_install_script_jobs)
qed

lemma post_install_script_regenerated:
  assumes "post_install_script st fs = Inr (st', fs')"
    and "get_setting (settings st) ''technology.sky130.sky130A'' = SStr dir"
    and "unaliased fs (install_jobs st dir)"
  shows "list_all (\<lambda>j. regenerated j fs fs') (install_jobs st dir)"
proof -
  from assms(1) have "run_jobs (pathlib_str (cache_dir st)) (install_jobs st dir) fs = Inr fs'"
    unfolding post_install_script_jobs[OF assms(2)] by (auto split: sum.splits)
  from run_jobs_regenerated[OF this assms(3)] show ?thesis .
qed

lemma post_install_script_state:
  assumes "post_install_script st fs = Inr (st', fs')"
  shows "settings st' = settings st \<and> cache_dir st' = cache_dir st"
  using assms by (auto simp: post_install_script_def Let_def split: sum.splits if_splits)

text \<open>
  C7: take a patch job that returns, on a file system in which the source is pristine:
  no source of the job is the same file as one of its destinations, and its destinations
  are different files.  Then the destination holds the job's edit of the text of the
  source, which is a function of that text and of the settings alone and so owes nothing
  to what the destination held before; the source is the file it was; and a second run,
  on the file system that the first one left, returns and leaves that file system as it
  is, so that the destination after the second run is byte for byte the destination
  after the first.  This holds for \<open>setup_cdl\<close>, \<open>setup_verilog\<close> (library Verilog and
  primitives), \<open>setup_techlef\<close>, \<open>setup_io_lefs\<close>, and for \<open>post_install_script\<close> as a
  whole, called again on the same object before or after the first call.
\<close>

theorem patch_engine_idempotent:
  assumes "get_setting (settings st) ''technology.sky130.sky130A'' = SStr dir"
  shows
   "(library_name st = Some lib \<and> setup_cdl st fs = Inr fs' \<and>
       unaliased fs [cdl_job st dir lib] \<longrightarrow>
       regenerated (cdl_job st dir lib) fs fs' \<and> setup_cdl st fs' = Inr fs') \<and>
    (library_name st = Some lib \<and> setup_verilog st fs = Inr fs' \<and>
       unaliased fs [verilog_job st dir lib, primitives_job st dir lib] \<longrightarrow>
       regenerated (verilog_job st dir lib) fs fs' \<and>
       regenerated (primitives_job st dir lib) fs fs' \<and> setup_verilog st fs' = Inr fs') \<and>
    (library_name st = Some lib \<and> setup_techlef st fs = Inr fs' \<and>
       unaliased fs [techlef_job st dir lib] \<longrightarrow>
       regenerated (techlef_job st dir lib) fs fs' \<and> setup_techlef st fs' = Inr fs') \<and>
    (setup_io_lefs st fs = Inr fs' \<and> unaliased fs [io_lef_job st dir] \<longrightarrow>
       regenerated (io_lef_job st dir) fs fs' \<and> setup_io_lefs st fs' = Inr fs') \<and>
    (post_install_script st fs = Inr (st', fs') \<and> unaliased fs (install_jobs st dir) \<longrightarrow>
       list_all (\<lambda>j. regenerated j fs fs') (install_jobs st dir) \<and>
       (\<exists>st''. post_install_script st fs' = Inr (st'', fs')) \<and>
       (\<exists>st''. post_install_script st' fs' = Inr (st'', fs')))"
proof (intro conjI impI)
  note d = assms
  {
    assume h: "library_name st = Some lib \<and> setup_cdl st fs = Inr fs' \<and>
       unaliased fs [cdl_job st dir lib]"
    then have l: "library_name st = Some lib" and u: "unaliased fs [cdl_job st dir lib]"
      and a0: "setup_cdl st fs = Inr fs'" by simp_all
    have a: "run_jobs (pathlib_str (cache_dir st)) [cdl_job st dir lib] fs = Inr fs'"
      unfolding run_jobs_single using a0 setup_cdl_job[OF d l] by simp
    from run_jobs_regenerated[OF a u] show "regenerated (cdl_job st dir lib) fs fs'" by simp
    from run_jobs_idem[OF u a] show "setup_cdl st fs' = Inr fs'"
      unfolding run_jobs_single by (simp add: setup_cdl_job[OF d l])
  }
  {
    assume h: "library_name st = Some lib \<and> setup_verilog st fs = Inr fs' \<and>
       unaliased fs [verilog_job st dir lib, primitives_job st dir lib]"
    then have l: "library_name st = Some lib"
      and u: "unaliased fs [verilog_job st dir lib, primitives_job st dir lib]"
      and a0: "setup_verilog st fs = Inr fs'" by simp_all
    have a: "run_jobs (pathlib_str (cache_dir st))
                [verilog_job st dir lib, primitives_job st dir lib] fs = Inr fs'"
      using a0 unfolding setup_verilog_jobs[OF d l] .
    from run_jobs_regenerated[OF a u]
    show "regenerated (verilog_job st dir lib) fs fs'"
      and "regenerated (primitives_job st dir lib) fs fs'" by simp_all
    from run_jobs_idem[OF u a] show "setup_verilog st fs' = Inr fs'"
      unfolding setup_verilog_jobs[OF d l] .
  }
  {
    assume h: "library_name st = Some lib \<and> setup_techlef st fs = Inr fs' \<and>
       unaliased fs [techlef_job st dir lib]"
    then have l: "library_name st = Some lib" and u: "unaliased fs [techlef_job st dir lib]"
      and a0: "setup_techlef st fs = Inr fs'" by simp_all
    have a: "run_jobs (pathlib_str (cache_dir st)) [techlef_job st dir lib] fs = Inr fs'"
      unfolding run_jobs_single using a0 setup_techlef_job[OF d l] by simp
    from run_jobs_regenerated[OF a u] show "regenerated (techlef_job st dir lib) fs fs'" by simp
    from run_jobs_idem[OF u a] show "setup_techlef st fs' = Inr fs'"
      unfolding run_jobs_single by (simp add: setup_techlef_job[OF d l])
  }
  {
    assume h: "setup_io_lefs st fs = Inr fs' \<and> unaliased fs [io_lef_job st dir]"
    then have u: "unaliased fs [io_lef_job st dir]"
      and a0: "setup_io_lefs st fs = Inr fs'" by simp_all
    have a: "run_jobs (pathlib_str (cache_dir st)) [io_lef_job st dir] fs = Inr fs'"
      unfolding run_jobs_single using a0 setup_io_lefs_job[OF d] by simp
    from run_jobs_regenerated[OF a u] show "regenerated (io_lef_job st dir) fs fs'" by simp
    from run_jobs_idem[OF u a] show "setup_io_lefs st fs' = Inr fs'"
      unfolding run_jobs_single by (simp add: setup_io_lefs_job[OF d])
  }
  {
    assume h: "post_install_script st fs = Inr (st', fs') \<and> unaliased fs (install_jobs st dir)"
    then have a: "post_install_script st fs = Inr (st', fs')"
      and u: "unaliased fs (install_jobs st dir)" by simp_all
    from post_install_script_regenerated[OF a d u]
    show "list_all (\<lambda>j. regenerated j fs fs') (install_jobs st dir)" .
    from post_install_script_idem[OF a d u]
    show "\<exists>st''. post_install_script st fs' = Inr (st'', fs')" by simp
    from post_install_script_idem[OF a d u] post_install_script_state[OF a]
    show "\<exists>st''. post_install_script st' fs' = Inr (st'', fs')" by simp
  }
qed

theorem patch_engine_idempotent_witness:
  "get_setting (settings (example_tech_of ''sky130_fd_sc_hd'')) ''technology.sky130.sky130A'' = SStr ''/pdk'' \<and>
   library_name (example_tech_of ''sky130_fd_sc_hd'') = Some ''sky130_fd_sc_hd'' \<and>
   \<not> isl (post_install_script (example_tech_of ''sky130_fd_sc_hd'') (example_fs example_verilog)) \<and>
   unaliased (example_fs example_verilog) (install_jobs (example_tech_of ''sky130_fd_sc_hd'') ''/pdk'') \<and>
   list_all (\<lambda>j. regenerated j (example_fs example_verilog)
                 (snd (projr (post_install_script (example_tech_of ''sky130_fd_sc_hd'') (example_fs example_verilog)))))
     (install_jobs (example_tech_of ''sky130_fd_sc_hd'') ''/pdk'') \<and>
   (\<exists>st''. post_install_script (example_tech_of ''sky130_fd_sc_hd'')
             (snd (projr (post_install_script (example_tech_of ''sky130_fd_sc_hd'') (example_fs example_verilog))))
           = Inr (st'', snd (projr (post_install_script (example_tech_of ''sky130_fd_sc_hd'') (example_fs example_verilog))))) \<and>
   \<not> isl (setup_cdl (example_tech_of ''sky130_fd_sc_hd'') (example_fs example_verilog)) \<and>
   regenerated (cdl_job (example_tech_of ''sky130_fd_sc_hd'') ''/pdk'' ''sky130_fd_sc_hd'')
     (example_fs example_verilog)
     (projr (setup_cdl (example_tech_of ''sky130_fd_sc_hd'') (example_fs example_verilog))) \<and>
   setup_cdl (example_tech_of ''sky130_fd_sc_hd'')
       (projr (setup_cdl (example_tech_of ''sky130_fd_sc_hd'') (example_fs example_verilog)))
     = Inr (projr (setup_cdl (example_tech_of ''sky130_fd_sc_hd'') (example_fs example_verilog))) \<and>
   node_at (projr (setup_cdl (example_tech_of ''sky130_fd_sc_hd'') (example_fs example_verilog)))
       ''cache/sky130_fd_sc_hd.cdl''
     = Some (File ''*.SCALE MICRON\<newline>M0 d g s b nshort_lvt w=1\<newline>M1 d g s b phighvt w=1\<newline>'') \<and>
   \<not> isl (setup_verilog (example_tech_of ''sky130_fd_sc_hd'') (example_fs example_verilog)) \<and>
   regenerated (verilog_job (example_tech_of ''sky130_fd_sc_hd'') ''/pdk'' ''sky130_fd_sc_hd'')
     (example_fs example_verilog)
     (projr (setup_verilog (example_tech_of ''sky130_fd_sc_hd'') (example_fs example_verilog))) \<and>
   setup_verilog (example_tech_of ''sky130_fd_sc_hd'')
       (projr (setup_verilog (example_tech_of ''sky130_fd_sc_hd'') (example_fs example_verilog)))
     = Inr (projr (setup_verilog (example_tech_of ''sky130_fd_sc_hd'') (example_fs example_verilog)))"
proof -
  let ?st = "example_tech_of ''sky130_fd_sc_hd''"
  let ?fs = "example_fs example_verilog"
  let ?lib = "''sky130_fd_sc_hd''"
  have d: "get_setting (settings ?st) ''technology.sky130.sky130A'' = SStr ''/pdk''"
    by (simp add: example_tech_of_def get_setting_def)
  have l: "library_name ?st = Some ?lib"
    by (simp add: example_tech_of_def)
  have a: "\<not> isl (post_install_script ?st ?fs)"
    by code_simp
  then have a': "post_install_script ?st ?fs =
      Inr (fst (projr (post_install_script ?st ?fs)), snd (projr (post_install_script ?st ?fs)))"
    using Inr_projr by fastforce
  have u: "unaliased ?fs (install_jobs ?st ''/pdk'')"
    by code_simp
  have b: "\<not> isl (setup_cdl ?st ?fs)"
    by code_simp
  then have b': "setup_cdl ?st ?fs = Inr (projr (setup_cdl ?st ?fs))"
    by (rule Inr_projr)
  have ub: "unaliased ?fs [cdl_job ?st ''/pdk'' ?lib]"
    by code_simp
  have nb: "node_at (projr (setup_cdl ?st ?fs)) ''cache/sky130_fd_sc_hd.cdl''
     = Some (File ''*.SCALE MICRON\<newline>M0 d g s b nshort_lvt w=1\<newline>M1 d g s b phighvt w=1\<newline>'')"
    by code_simp
  have c: "\<not> isl (setup_verilog ?st ?fs)"
    by code_simp
  then have c': "setup_verilog ?st ?fs = Inr (projr (setup_verilog ?st ?fs))"
    by (rule Inr_projr)
  have uc: "unaliased ?fs [verilog_job ?st ''/pdk'' ?lib, primitives_job ?st ''/pdk'' ?lib]"
    by code_simp
  note t1 = patch_engine_idempotent [OF d, where lib = ?lib and fs = ?fs
         and fs' = "projr (setup_cdl ?st ?fs)"]
  note t2 = patch_engine_idempotent [OF d, where lib = ?lib and fs = ?fs
         and fs' = "projr (setup_verilog ?st ?fs)"]
  note t5 = patch_engine_idempotent [OF d, where lib = ?lib and fs = ?fs
         and fs' = "snd (projr (post_install_script ?st ?fs))"
         and st' = "fst (projr (post_install_script ?st ?fs))"]
  have r1: "regenerated (cdl_job ?st ''/pdk'' ?lib) ?fs (projr (setup_cdl ?st ?fs)) \<and>
      setup_cdl ?st (projr (setup_cdl ?st ?fs)) = Inr (projr (setup_cdl ?st ?fs))"
    by (rule mp[OF t1[THEN conjunct1]]) (intro conjI l b' ub)
  have r2: "regenerated (verilog_job ?st ''/pdk'' ?lib) ?fs (projr (setup_verilog ?st ?fs)) \<and>
      regenerated (primitives_job ?st ''/pdk'' ?lib) ?fs (projr (setup_verilog ?st ?fs)) \<and>
      setup_verilog ?st (projr (setup_verilog ?st ?fs)) = Inr (projr (setup_verilog ?st ?fs))"
    by (rule mp[OF t2[THEN conjunct2, THEN conjunct1]]) (intro conjI l c' uc)
  have r5: "list_all (\<lambda>j. regenerated j ?fs (snd (projr (post_install_script ?st ?fs))))
        (install_jobs ?st ''/pdk'') \<and>
      (\<exists>st''. post_install_script ?st (snd (projr (post_install_script ?st ?fs)))
          = Inr (st'', snd (projr (post_install_script ?st ?fs)))) \<and>
      (\<exists>st''. post_install_script (fst (projr (post_install_script ?st ?fs)))
                 (snd (projr (post_install_script ?st ?fs)))
          = Inr (st'', snd (projr (post_install_script ?st ?fs))))"
    by (rule mp[OF t5[THEN conjunct2, THEN conjunct2, THEN conjunct2, THEN conjunct2]])
       (intro conjI a' u)
  show ?thesis
    by (intro conjI d l a u r5[THEN conjunct1] r5[THEN conjunct2, THEN conjunct1] b
          r1[THEN conjunct1] r1[THEN conjunct2] nb c r2[THEN conjunct1]
          r2[THEN conjunct2, THEN conjunct2])
qed

end
